theory Spec2Isabelle
  imports Complex_Main "HOL-Library.Sublist"
begin

section \<open>JavaScript built-ins used by the services\<close>

text \<open>
  Strings are \<open>char list\<close>. The whitespace class is the one shared by the regular
  expression class \<open>\s\<close> and by \<open>String.prototype.trim\<close>, restricted to the code
  points an 8-bit \<open>char\<close> can hold: tab, line feed, vertical tab, form feed, carriage
  return, space and no-break space.
\<close>

definition is_space :: "char \<Rightarrow> bool" where
  "is_space c \<longleftrightarrow>
     c = CHR 0x09 \<or> c = CHR 0x0A \<or> c = CHR 0x0B \<or> c = CHR 0x0C \<or> c = CHR 0x0D \<or>
     c = CHR 0x20 \<or> c = CHR 0xA0"

text \<open>
  \<open>Array.prototype.slice(b, e)\<close> and \<open>String.prototype.slice(b, e)\<close>: a negative
  index counts from the end, both indices are clamped to the length, and an empty range
  gives the empty list.
\<close>

definition js_slice :: "'a list \<Rightarrow> int \<Rightarrow> int \<Rightarrow> 'a list" where
  "js_slice xs b e =
     (let n = int (length xs);
          k = (if b < 0 then max (n + b) 0 else min b n);
          f = (if e < 0 then max (n + e) 0 else min e n)
      in take (nat (f - k)) (drop (nat k) xs))"

text \<open>\<open>s.split(/\s+/)\<close>: the pieces between maximal whitespace runs, empty pieces kept.\<close>

function split_ws :: "string \<Rightarrow> string list" where
  "split_ws s =
     (let w = takeWhile (\<lambda>c. \<not> is_space c) s;
          r = dropWhile (\<lambda>c. \<not> is_space c) s
      in if r = [] then [w] else w # split_ws (dropWhile is_space r))"
  by pat_completeness auto
termination
proof (relation "measure length")
  fix s :: string and w r
  assume r: "r = dropWhile (\<lambda>c. \<not> is_space c) s" and ne: "r \<noteq> []"
  have "length (dropWhile is_space r) \<le> length r"
    by (rule length_dropWhile_le)
  moreover have "is_space (hd r)"
    using ne hd_dropWhile [of "\<lambda>c. \<not> is_space c" s] r by auto
  then have "dropWhile is_space r = dropWhile is_space (tl r)"
    using ne by (cases r) auto
  then have "length (dropWhile is_space r) < length r"
    using ne length_dropWhile_le [of is_space "tl r"] by (cases r) auto
  moreover have "length r \<le> length s"
    unfolding r by (rule length_dropWhile_le)
  ultimately show "(dropWhile is_space r, s) \<in> measure length"
    by simp
qed simp

declare split_ws.simps [simp del]

text \<open>\<open>text.split(/\s+/).filter(Boolean)\<close>: the empty string is the only falsy string.\<close>

definition js_words :: "string \<Rightarrow> string list" where
  "js_words text = filter (\<lambda>w. w \<noteq> []) (split_ws text)"

text \<open>\<open>Array.prototype.join(sep)\<close> on an array of strings.\<close>

fun join :: "string \<Rightarrow> string list \<Rightarrow> string" where
  "join sep [] = []"
| "join sep [x] = x"
| "join sep (x # y # ys) = x @ sep @ join sep (y # ys)"

text \<open>\<open>String.prototype.trim\<close>.\<close>

definition trim :: "string \<Rightarrow> string" where
  "trim s = rev (dropWhile is_space (rev (dropWhile is_space s)))"

text \<open>
  \<open>s.lastIndexOf(pat)\<close>: the greatest index at which \<open>pat\<close> occurs in \<open>s\<close>, or \<open>-1\<close>.
\<close>

definition lastIndexOf :: "string \<Rightarrow> string \<Rightarrow> int" where
  "lastIndexOf s pat =
     (case filter (\<lambda>i. take (length pat) (drop i s) = pat) (rev [0..<Suc (length s)]) of
        [] \<Rightarrow> - 1
      | i # _ \<Rightarrow> int i)"

section \<open>The chunker (\<open>RagIngestService.chunkByTokens\<close>)\<close>

text \<open>
  \<open>minTokens\<close>, \<open>maxTokens\<close> and \<open>overlap\<close> count words; they are integers of
  either sign here. The paragraph break the loop searches for is two line feeds.
\<close>

definition paragraph_break :: string where
  "paragraph_break = [CHR 0x0A, CHR 0x0A]"

text \<open>
  One round of the \<open>while\<close> loop computes \<open>target\<close>, then \<open>end\<close> (moved back to a
  paragraph break when one is found in the window text and at least \<open>minTokens\<close> words
  precede it), then the trimmed \<open>piece\<close>.
\<close>

definition chunk_end :: "string list \<Rightarrow> int \<Rightarrow> int \<Rightarrow> int \<Rightarrow> int" where
  "chunk_end words minTokens maxTokens start =
     (let target = min (int (length words)) (start + maxTokens);
          windowText = join '' '' (js_slice words start target);
          localBreak = lastIndexOf windowText paragraph_break
      in if localBreak > - 1
         then (let upto = js_slice windowText 0 localBreak;
                   uptoCount = int (length (js_words upto))
               in if uptoCount \<ge> minTokens then start + uptoCount else target)
         else target)"

definition chunk_piece :: "string list \<Rightarrow> int \<Rightarrow> int \<Rightarrow> string" where
  "chunk_piece words start end' = trim (join '' '' (js_slice words start end'))"

text \<open>
  The loop itself. It has no bound in the source, so it is a partial function: \<open>None\<close>
  is a run that never returns.
\<close>

partial_function (option) chunk_loop ::
  "string list \<Rightarrow> int \<Rightarrow> int \<Rightarrow> int \<Rightarrow> int \<Rightarrow> string list \<Rightarrow> string list option" where
  "chunk_loop words minTokens maxTokens overlap start chunks =
     (if start < int (length words)
      then (let end' = chunk_end words minTokens maxTokens start;
                piece = chunk_piece words start end';
                chunks' = (if piece \<noteq> [] then chunks @ [piece] else chunks)
            in if end' \<ge> int (length words) then Some chunks'
               else chunk_loop words minTokens maxTokens overlap (max 0 (end' - overlap)) chunks')
      else Some chunks)"

declare chunk_loop.simps [code]

definition chunkByTokens :: "string \<Rightarrow> int \<Rightarrow> int \<Rightarrow> int \<Rightarrow> string list option" where
  "chunkByTokens text minTokens maxTokens overlap =
     (let words = js_words text
      in if words = [] then Some [] else chunk_loop words minTokens maxTokens overlap 0 [])"

subsection \<open>Notions used to state the chunker's properties\<close>

text \<open>
  A word as \<open>js_words\<close> produces it: not empty and free of whitespace.
\<close>

definition good_word :: "string \<Rightarrow> bool" where
  "good_word w \<longleftrightarrow> w \<noteq> [] \<and> (\<forall>c\<in>set w. \<not> is_space c)"

text \<open>
  The word windows the loop visits when \<open>overlap < maxTokens\<close>, starting at word index
  \<open>s\<close>: windows of \<open>mx\<close> words, each starting \<open>ov\<close> words before the end of the
  previous one, the last one ending with the input. It is a proof device; the theorems
  below are about \<open>chunkByTokens\<close>.
\<close>

function windows :: "'a list \<Rightarrow> nat \<Rightarrow> nat \<Rightarrow> nat \<Rightarrow> 'a list list" where
  "windows ws mx ov s =
     (if length ws \<le> s + mx \<or> mx \<le> ov then [drop s ws]
      else take mx (drop s ws) # windows ws mx ov (s + mx - ov))"
  by pat_completeness auto
termination
  by (relation "measure (\<lambda>(ws, mx, ov, s). length ws - s)") auto

declare windows.simps [simp del]

text \<open>
  \<open>overlaps ov ts\<close>: in a list of token sequences, each one ends with the \<open>ov\<close> tokens
  its successor starts with. \<open>unoverlap ov ts\<close>: the first token sequence followed by
  every later one without its leading \<open>ov\<close> tokens.
\<close>

fun overlaps :: "nat \<Rightarrow> 'a list list \<Rightarrow> bool" where
  "overlaps ov (a # b # rest) \<longleftrightarrow>
     ov \<le> length a \<and> ov \<le> length b \<and> take ov b = drop (length a - ov) a \<and>
     overlaps ov (b # rest)"
| "overlaps ov _ \<longleftrightarrow> True"

fun unoverlap :: "nat \<Rightarrow> 'a list list \<Rightarrow> 'a list" where
  "unoverlap ov [] = []"
| "unoverlap ov (a # rest) = a @ concat (map (drop ov) rest)"

section \<open>The embedding adapter (\<open>IonosService.createEmbeddings\<close>)\<close>

text \<open>Exceptions of the JavaScript run time and of the services, as values.\<close>

datatype error =
    RangeError
  | TypeError
  | ServiceError
  | BadRequestException
  | InternalServerErrorException

text \<open>
  \<open>new Array(n).fill(x)\<close>: an array length is an integer from \<open>0\<close> to \<open>2\<^sup>3\<^sup>2 - 1\<close>;
  any other number raises \<open>RangeError\<close>.
\<close>

definition new_Array_fill :: "int \<Rightarrow> 'a \<Rightarrow> error + 'a list" where
  "new_Array_fill n x =
     (if 0 \<le> n \<and> n < 2 ^ 32 then Inr (replicate (nat n) x) else Inl RangeError)"

text \<open>
  The local function \<open>fit\<close>. \<open>targetDim\<close> is the result of \<open>parseInt\<close>, an integer or
  \<open>NaN\<close> (\<open>None\<close>): \<open>NaN\<close> fails both comparisons and \<open>new Array(NaN)\<close> raises. The copy
  loop writes \<open>out[i]\<close> for \<open>i < v.length\<close>, which is in range in the branch that runs it
  (\<open>v.length < targetDim\<close>).
\<close>

definition fit :: "int option \<Rightarrow> 'a::zero list \<Rightarrow> error + 'a list" where
  "fit targetDim v =
     (case targetDim of
        None \<Rightarrow> Inl RangeError
      | Some d \<Rightarrow>
          if int (length v) = d then Inr v
          else if int (length v) > d then Inr (js_slice v 0 d)
          else (case new_Array_fill d 0 of
                  Inl e \<Rightarrow> Inl e
                | Inr out \<Rightarrow> Inr (fold (\<lambda>i out. out[i := v ! i]) [0..<length v] out)))"

text \<open>
  \<open>createEmbeddings\<close>: the HTTP call is the parameter \<open>post\<close>, giving the embedding of
  each returned record or failing; every returned vector goes through \<open>fit\<close>, and the
  first failure is the failure of the call.
\<close>

fun fit_all :: "int option \<Rightarrow> 'a::zero list list \<Rightarrow> error + 'a list list" where
  "fit_all targetDim [] = Inr []"
| "fit_all targetDim (v # vs) =
     (case fit targetDim v of
        Inl e \<Rightarrow> Inl e
      | Inr out \<Rightarrow> (case fit_all targetDim vs of Inl e \<Rightarrow> Inl e | Inr outs \<Rightarrow> Inr (out # outs)))"

definition createEmbeddings ::
  "('i \<Rightarrow> error + 'a::zero list list) \<Rightarrow> int option \<Rightarrow> 'i \<Rightarrow> error + 'a list list" where
  "createEmbeddings post targetDim input =
     (case post input of Inl e \<Rightarrow> Inl e | Inr vs \<Rightarrow> fit_all targetDim vs)"

section \<open>The query service (\<open>QueryService\<close>)\<close>

subsection \<open>Values exchanged with the collaborators\<close>

datatype ChatRole = System | User | Assistant | Tool | Function

fun role_name :: "ChatRole \<Rightarrow> string" where
  "role_name System = ''system''"
| "role_name User = ''user''"
| "role_name Assistant = ''assistant''"
| "role_name Tool = ''tool''"
| "role_name Function = ''function''"

record ChatMsg =
  role :: ChatRole
  content :: string

text \<open>The argument of \<open>IonosService.chatCompletion\<close>.\<close>

record ChatParams =
  messages :: "ChatMsg list"
  temperature :: rat
  max_tokens :: int

text \<open>
  What \<open>JSON.parse\<close> returns. An object is its list of members, each key once; a number
  is a rational (a parsed number is never \<open>NaN\<close> or infinite).
\<close>

datatype json =
    JNull
  | JBool bool
  | JNum rat
  | JStr string
  | JArr "json list"
  | JObj "(string \<times> json) list"

text \<open>
  Reading a property of a parsed value: \<open>undefined\<close> is \<open>None\<close>. Reading a property of
  \<open>null\<close> raises \<open>TypeError\<close>, which the callers below check before they read. None of
  the property names read here exists on a string, a number, a boolean or an array.
\<close>

definition get_prop :: "json \<Rightarrow> string \<Rightarrow> json option" where
  "get_prop j k = (case j of JObj kvs \<Rightarrow> map_of kvs k | _ \<Rightarrow> None)"

text \<open>
  Truthiness of a value that may be \<open>undefined\<close>, and of an array: every object is
  truthy, the empty array too.
\<close>

fun truthy :: "json option \<Rightarrow> bool" where
  "truthy None = False"
| "truthy (Some JNull) = False"
| "truthy (Some (JBool b)) = b"
| "truthy (Some (JNum n)) = (n \<noteq> 0)"
| "truthy (Some (JStr s)) = (s \<noteq> [])"
| "truthy (Some (JArr xs)) = True"
| "truthy (Some (JObj kvs)) = True"

definition array_truthy :: "'a list \<Rightarrow> bool" where
  "array_truthy xs = True"

text \<open>
  \<open>String(x)\<close> and template interpolation of a parsed value. The rendering of a number
  is the parameter \<open>sh\<close>.
\<close>

fun js_String :: "(rat \<Rightarrow> string) \<Rightarrow> json \<Rightarrow> string" where
  "js_String sh JNull = ''null''"
| "js_String sh (JBool b) = (if b then ''true'' else ''false'')"
| "js_String sh (JNum n) = sh n"
| "js_String sh (JStr s) = s"
| "js_String sh (JArr xs) = join '','' (map (\<lambda>x. if x = JNull then [] else js_String sh x) xs)"
| "js_String sh (JObj kvs) = ''[object Object]''"

text \<open>
  The text of an array length or index in a template: its decimal digits, most
  significant first.
\<close>

definition digit_char :: "nat \<Rightarrow> char" where
  "digit_char d = char_of (d + 48)"

function decimal :: "nat \<Rightarrow> string" where
  "decimal n =
     (if n div 10 = 0 then [digit_char n] else decimal (n div 10) @ [digit_char (n mod 10)])"
  by pat_completeness auto
termination
  by (relation "measure id") auto

declare decimal.simps [simp del]

text \<open>
  A JavaScript number as \<open>Number(r.value)\<close> gives it: finite, or one of the three
  non-finite values.
\<close>

datatype jsnum = Num rat | NaN | PosInfinity | NegInfinity

fun isFinite :: "jsnum \<Rightarrow> bool" where
  "isFinite (Num x) = True"
| "isFinite _ = False"

fun finite_value :: "jsnum \<Rightarrow> rat" where
  "finite_value (Num x) = x"
| "finite_value _ = 0"

text \<open>
  A point \<open>{t, v}\<close> of a series (the fields are \<open>pt_t\<close> and \<open>pt_v\<close> here), the chart
  result and its \<open>meta\<close>.
\<close>

record ChartPoint =
  pt_t :: string
  pt_v :: jsnum

record ChartMeta =
  assetUrn :: string
  metric :: "json option"
  source :: string

record ChartResult =
  series :: "ChartPoint list"
  meta :: ChartMeta

text \<open>
  The content of the first choice of a completion response: a string, an array of parts,
  an object (given by its \<open>JSON.stringify\<close> text), a number or boolean, or
  \<open>null\<close>/\<open>undefined\<close>. A part is a string, an object with a string \<open>text\<close>, an object
  with a string \<open>text.value\<close>, or anything else.
\<close>

datatype part = PString string | PText string | PTextValue string | POther

datatype content = CString string | CArray "part list" | CObject string | CPrimitive | CNothing

text \<open>
  The shapes of a completion response \<open>r\<close> that the code tells apart: \<open>r\<close> itself
  missing, \<open>r.choices\<close> missing, \<open>r.choices[0]\<close> missing, \<open>r.choices[0].message\<close>
  missing, or a message with its content.
\<close>

datatype response = NoData | NoChoices | NoFirstChoice | NoMessage | Message content

text \<open>The calls made to the external services, in order.\<close>

datatype 'v call =
    ChatCompletion ChatParams
  | PgQuery string string json json
  | AlertaGet string
  | CreateEmbeddings "string list"
  | MilvusSearch "'v list"

text \<open>
  The collaborators and the configuration of one \<open>QueryService\<close>. \<open>pgPool\<close> is absent
  when \<open>PGHOST\<close> is not set; its query function gives the mapped rows
  \<open>{t, v}\<close> (the mapping runs inside the same \<open>try\<close> block as the query).
  \<open>alertaGet\<close> gives \<open>resAlerts.data.alerts\<close>. \<open>embeddings\<close> is
  \<open>IonosService.createEmbeddings\<close>, \<open>search\<close> is \<open>MilvusRagService.search\<close> and gives the
  \<open>labels\<close> of each hit. \<open>promptText\<close> is the literal text of the system prompt before
  the interpolated \<open>vectorStoreIds\<close>.
\<close>

record ('al, 'v) QueryEnv =
  chatCompletion :: "ChatParams \<Rightarrow> error + response"
  parseJSON :: "string \<Rightarrow> json option"
  stringify :: "json \<Rightarrow> string"
  showNum :: "rat \<Rightarrow> string"
  pgPool :: "(string \<Rightarrow> string \<Rightarrow> json \<Rightarrow> json \<Rightarrow> error + ChartPoint list) option"
  alertaGet :: "string \<Rightarrow> error + 'al list"
  embeddings :: "string list \<Rightarrow> error + 'v list list"
  search :: "'v list \<Rightarrow> error + json option list"
  promptText :: string

subsection \<open>Intent classification\<close>

text \<open>
  The prompts. The template interpolates the schema object itself, which renders as
  \<open>[object Object]\<close>.
\<close>

definition chartPrompt :: "string \<Rightarrow> string" where
  \<open>chartPrompt lastUserText =
     ''You extract data chart intent from a single user message.\<newline>'' @
     ''- If the user asks for a chart/plot/graph/trend or with an id, ignore alerts or notification queries, set wants_chart=true.\<newline>'' @
     ''- Extract the asset URN exactly if present (e.g., "urn:iff:asset:123"). if else, a product name or some string is present.\<newline>'' @
     ''- If a range like "last 24h/7d/30m" is present, fill last {value,unit}.\<newline>'' @
     ''- Be strict in decision, if in doubt assume that there is no intent.\<newline>'' @
     ''- If explicit dates exist, set from/to as ISO. if not present, take CEST from yesterday to today. The format must match 2025-08-14T12:36:04.868Z \<newline>'' @
     ''- metric is optional but fetch it. if two words present use like ab_ba (e.g., temperature, power, load, rpm, pressure, current, voltage, speed, energy, consumption).\<newline>'' @
     ''Return pure JSON object in this format [object Object].\<newline>\<newline>'' @
     ''User: '' @ lastUserText\<close>

definition alertPrompt :: "string \<Rightarrow> string" where
  \<open>alertPrompt lastUserText =
     ''You extract data alert intent from a single user message.\<newline>'' @
     ''- If the user asks for an alert or alerts or notifications and you know better, set wants_alert=true.\<newline>'' @
     ''- Extract the asset URN exactly if present (e.g., "urn:iff:asset:123").\<newline>'' @
     ''- Be strict in decision, if in doubt assume that there is no intent.\<newline>'' @
     ''Return pure JSON object in this format [object Object].\<newline>\<newline>'' @
     ''User: '' @ lastUserText\<close>

definition intentParams :: "string \<Rightarrow> ChatParams" where
  "intentParams prompt =
     \<lparr>messages = [\<lparr>role = User, content = prompt\<rparr>], temperature = 1 / 10, max_tokens = 250\<rparr>"

text \<open>\<open>(r as any)?.choices?.[0]?.message?.content\<close>\<close>

fun message_content :: "response \<Rightarrow> content" where
  "message_content (Message c) = c"
| "message_content _ = CNothing"

text \<open>The local function \<open>asString\<close>.\<close>

fun part_text :: "part \<Rightarrow> string" where
  "part_text (PString p) = p"
| "part_text (PText p) = p"
| "part_text (PTextValue p) = p"
| "part_text POther = []"

fun asString :: "content \<Rightarrow> string" where
  "asString (CString x) = x"
| "asString (CArray x) = join ''\<newline>'' (filter (\<lambda>p. p \<noteq> []) (map part_text x))"
| "asString (CObject x) = x"
| "asString CPrimitive = []"
| "asString CNothing = []"

text \<open>
  \<open>out.replace(/^```(?:json)?\s*|\s*```$/g, '')\<close>. The first alternative can match
  only at the start of the string: three backticks, \<open>json\<close> when it follows, then all
  the whitespace that follows. The second alternative can match only once, at the end
  of what is left: whitespace followed by the three backticks that end the string.
\<close>

definition fence :: string where
  "fence = ''```''"

definition strip_fences :: "string \<Rightarrow> string" where
  "strip_fences out =
     (let r = (if prefix fence out
               then (let a = drop 3 out;
                         b = (if prefix ''json'' a then drop 4 a else a)
                     in dropWhile is_space b)
               else out)
      in if suffix fence r then rev (dropWhile is_space (rev (take (length r - 3) r)))
         else r)"

definition cleaned_output :: "response \<Rightarrow> string" where
  "cleaned_output r = trim (strip_fences (asString (message_content r)))"

text \<open>
  The two classifiers. Each makes one completion call; a failure of that call is raised
  to the caller, a parse failure is not.
\<close>

definition detectChartIntentWithLLM ::
  "('al, 'v) QueryEnv \<Rightarrow> string \<Rightarrow> 'v call list \<Rightarrow> (error + json) \<times> 'v call list" where
  "detectChartIntentWithLLM env lastUserText calls =
     (let params = intentParams (chartPrompt lastUserText);
          calls' = calls @ [ChatCompletion params]
      in case chatCompletion env params of
           Inl e \<Rightarrow> (Inl e, calls')
         | Inr r \<Rightarrow>
             (case parseJSON env (cleaned_output r) of
                Some j \<Rightarrow> (Inr j, calls')
              | None \<Rightarrow> (Inr (JObj [(''wants_chart'', JBool False)]), calls')))"

definition detectAlertIntentWithLLM ::
  "('al, 'v) QueryEnv \<Rightarrow> string \<Rightarrow> 'v call list \<Rightarrow> (error + json) \<times> 'v call list" where
  "detectAlertIntentWithLLM env lastUserText calls =
     (let params = intentParams (alertPrompt lastUserText);
          calls' = calls @ [ChatCompletion params]
      in case chatCompletion env params of
           Inl e \<Rightarrow> (Inl e, calls')
         | Inr r \<Rightarrow>
             (case parseJSON env (cleaned_output r) of
                Some j \<Rightarrow> (Inr j, calls')
              | None \<Rightarrow> (Inr (JObj [(''wants_alert'', JBool False)]), calls')))"

subsection \<open>Live data\<close>

text \<open>\<open>[...messages].reverse().find(m => m.role === 'user')\<close>\<close>

definition lastUser :: "ChatMsg list \<Rightarrow> ChatMsg option" where
  "lastUser msgs = find (\<lambda>m. role m = User) (rev msgs)"

text \<open>
  \<open>fetchSeriesFromPostgres\<close>, called with the pool's query function: a failing query
  leaves the series empty.
\<close>

definition fetchSeriesFromPostgres ::
  "('al, 'v) QueryEnv \<Rightarrow> (string \<Rightarrow> string \<Rightarrow> json \<Rightarrow> json \<Rightarrow> error + ChartPoint list) \<Rightarrow>
   string \<Rightarrow> json option \<Rightarrow> json \<Rightarrow> json \<Rightarrow> 'v call list \<Rightarrow> ChartResult \<times> 'v call list" where
  "fetchSeriesFromPostgres env query assetUrn' metric' from to calls =
     (let attributeId = ''https://industry-fusion.org/base/v0.1/'' @
            (case metric' of None \<Rightarrow> ''null'' | Some m \<Rightarrow> js_String (showNum env) m);
          rows = (case query assetUrn' attributeId from to of Inl e \<Rightarrow> [] | Inr rs \<Rightarrow> rs)
      in (\<lparr>series = rows,
           meta = \<lparr>assetUrn = assetUrn', metric = metric', source = ''postgres''\<rparr>\<rparr>,
          calls @ [PgQuery assetUrn' attributeId from to]))"

fun truthy_or_empty :: "json option \<Rightarrow> json" where
  "truthy_or_empty (Some j) = (if truthy (Some j) then j else JStr [])"
| "truthy_or_empty None = JStr []"

text \<open>
  \<open>maybeGetChartData\<close>. Reading \<open>nlu.wants_chart\<close> raises when the classifier returned
  \<open>null\<close>. \<open>from\<close> and \<open>to\<close> start as the empty string and take any truthy value the
  classifier gave (\<open>truthy_or_empty\<close>).
\<close>

definition maybeGetChartData ::
  "('al, 'v) QueryEnv \<Rightarrow> ChatMsg list \<Rightarrow> 'v call list \<Rightarrow>
   (error + ChartResult option) \<times> 'v call list" where
  "maybeGetChartData env msgs calls =
     (case lastUser msgs of
        None \<Rightarrow> (Inr None, calls)
      | Some u \<Rightarrow>
          (case detectChartIntentWithLLM env (content u) calls of
             (Inl e, calls1) \<Rightarrow> (Inl e, calls1)
           | (Inr nlu, calls1) \<Rightarrow>
               if nlu = JNull then (Inl TypeError, calls1)
               else if \<not> truthy (get_prop nlu ''wants_chart'') \<or> \<not> truthy (get_prop nlu ''asset_urn'')
               then (Inr None, calls1)
               else
                 (let from = truthy_or_empty (get_prop nlu ''from'');
                      to = truthy_or_empty (get_prop nlu ''to'');
                      metric' = (case get_prop nlu ''metric'' of Some JNull \<Rightarrow> None | m \<Rightarrow> m)
                  in case (pgPool env, get_prop nlu ''asset_urn'') of
                       (Some query, Some (JStr urn)) \<Rightarrow>
                         if truthy (Some from) \<and> truthy (Some to)
                         then (case fetchSeriesFromPostgres env query urn metric' from to calls1 of
                                 (c, calls2) \<Rightarrow> (Inr (Some c), calls2))
                         else (Inr None, calls1)
                     | _ \<Rightarrow> (Inr None, calls1))))"

text \<open>\<open>formatChartSummary\<close>\<close>

record ChartSummary =
  summary :: string
  first10 :: "ChartPoint list"
  last10 :: "ChartPoint list"

definition formatChartSummary :: "('al, 'v) QueryEnv \<Rightarrow> ChartResult \<Rightarrow> ChartSummary" where
  "formatChartSummary env chart =
     (let pts = length (series chart);
          vals = map finite_value (filter isFinite (map pt_v (series chart)));
          mn = (if vals \<noteq> [] then Some (Min (set vals)) else None);
          mx = (if vals \<noteq> [] then Some (Max (set vals)) else None)
      in \<lparr>summary = join ''\<newline>''
             [''Live data ('' @
                (case metric (meta chart) of
                   None \<Rightarrow> ''metric'' | Some JNull \<Rightarrow> ''metric''
                 | Some m \<Rightarrow> js_String (showNum env) m) @
                '') for '' @ assetUrn (meta chart),
              ''Points: '' @ decimal pts @
                (case (mn, mx) of
                   (Some a, Some b) \<Rightarrow> '', Min: '' @ showNum env a @ '', Max: '' @ showNum env b
                 | _ \<Rightarrow> [])],
           first10 = js_slice (series chart) 0 100,
           last10 = js_slice (series chart) (max 0 (int pts - 100)) (int pts)\<rparr>)"

text \<open>
  What \<open>handleQuery\<close> returns: \<open>{reply, chart, first10, last10}\<close>, \<open>{reply, chart}\<close>,
  \<open>{reply, alerts}\<close> or \<open>{reply}\<close>.
\<close>

datatype 'al QueryResult =
    ChartReply string ChartResult "ChartPoint list" "ChartPoint list"
  | NoChartData string ChartResult
  | AlertsReply string "'al list"
  | LLMReply content

text \<open>
  \<open>getChartSummaryIfAny\<close>: an error of \<open>maybeGetChartData\<close> is ignored. The first test
  is the truthiness of \<open>chart?.series\<close>, the second is \<open>chart?.series.length === 0\<close>.
  (The reply has the character U+2019 where the model writes an apostrophe.)
\<close>

definition getChartSummaryIfAny ::
  "('al, 'v) QueryEnv \<Rightarrow> ChatMsg list \<Rightarrow> 'v call list \<Rightarrow> 'al QueryResult option \<times> 'v call list" where
  \<open>getChartSummaryIfAny env msgs calls =
     (case maybeGetChartData env msgs calls of
        (Inl e, calls1) \<Rightarrow> (None, calls1)
      | (Inr None, calls1) \<Rightarrow> (None, calls1)
      | (Inr (Some chart), calls1) \<Rightarrow>
          if array_truthy (series chart)
          then (let s = formatChartSummary env chart
                in (Some (ChartReply (''Here's the live chart summary:\<newline>\<newline>'' @ summary s)
                            chart (first10 s) (last10 s)), calls1))
          else if length (series chart) = 0
          then (Some (NoChartData
                   (''No live data available for '' @ assetUrn (meta chart) @ '' ('' @
                      (case metric (meta chart) of
                         None \<Rightarrow> ''undefined'' | Some m \<Rightarrow> js_String (showNum env) m) @ '').'')
                   chart), calls1)
          else (None, calls1))\<close>

text \<open>\<open>fetchAlertData\<close>: a failing request leaves the alerts empty.\<close>

datatype 'al AlertResult = AlertResult (alerts: "'al list") (alertAssetUrn: string)

definition fetchAlertData ::
  "('al, 'v) QueryEnv \<Rightarrow> string \<Rightarrow> 'v call list \<Rightarrow> 'al AlertResult \<times> 'v call list" where
  "fetchAlertData env urn calls =
     (AlertResult (case alertaGet env urn of Inl e \<Rightarrow> [] | Inr as \<Rightarrow> as) urn,
      calls @ [AlertaGet urn])"

definition maybeGetAlertData ::
  "('al, 'v) QueryEnv \<Rightarrow> ChatMsg list \<Rightarrow> 'v call list \<Rightarrow>
   (error + 'al AlertResult option) \<times> 'v call list" where
  "maybeGetAlertData env msgs calls =
     (case lastUser msgs of
        None \<Rightarrow> (Inr None, calls)
      | Some u \<Rightarrow>
          (case detectAlertIntentWithLLM env (content u) calls of
             (Inl e, calls1) \<Rightarrow> (Inl e, calls1)
           | (Inr nlu, calls1) \<Rightarrow>
               if nlu = JNull then (Inl TypeError, calls1)
               else if \<not> truthy (get_prop nlu ''wants_alert'') \<or> \<not> truthy (get_prop nlu ''asset_urn'')
               then (Inr None, calls1)
               else (case get_prop nlu ''asset_urn'' of
                       Some (JStr urn) \<Rightarrow>
                         (case fetchAlertData env urn calls1 of (a, calls2) \<Rightarrow> (Inr (Some a), calls2))
                     | _ \<Rightarrow> (Inr None, calls1))))"

definition getAlertsDataIfAny ::
  "('al, 'v) QueryEnv \<Rightarrow> ChatMsg list \<Rightarrow> 'v call list \<Rightarrow> 'al QueryResult option \<times> 'v call list" where
  \<open>getAlertsDataIfAny env msgs calls =
     (case maybeGetAlertData env msgs calls of
        (Inl e, calls1) \<Rightarrow> (None, calls1)
      | (Inr None, calls1) \<Rightarrow> (None, calls1)
      | (Inr (Some a), calls1) \<Rightarrow>
          if array_truthy (alerts a)
          then (Some (AlertsReply ''Here's the live alerts:\<newline>\<newline>'' (alerts a)), calls1)
          else if length (alerts a) = 0
          then (Some (AlertsReply (''No live data available for '' @ alertAssetUrn a @ ''.'')
                        (alerts a)), calls1)
          else (None, calls1))\<close>

subsection \<open>Semantic retrieval\<close>

text \<open>The local function \<open>coerceLabels\<close>, applied to \<open>hit?.labels\<close>.\<close>

definition coerceLabels :: "('al, 'v) QueryEnv \<Rightarrow> json option \<Rightarrow> json" where
  "coerceLabels env input =
     (case input of
        Some (JObj kvs) \<Rightarrow> JObj kvs
      | Some (JStr s0) \<Rightarrow>
          (let s = trim s0
           in if prefix ''{'' s \<or> prefix ''['' s
              then (case parseJSON env s of
                      Some (JObj kvs) \<Rightarrow> JObj kvs
                    | Some (JArr xs) \<Rightarrow> JArr xs
                    | _ \<Rightarrow> JObj [])
              else JObj [])
      | _ \<Rightarrow> JObj [])"

text \<open>The text of a hit: \<open>labels?.text\<close> coerced to a string.\<close>

definition hit_text :: "('al, 'v) QueryEnv \<Rightarrow> json option \<Rightarrow> string" where
  "hit_text env hit_labels =
     (case get_prop (coerceLabels env hit_labels) ''text'' of
        None \<Rightarrow> []
      | Some JNull \<Rightarrow> []
      | Some (JStr s) \<Rightarrow> s
      | Some (JArr xs) \<Rightarrow>
          join '' '' (map (\<lambda>x. if x = JNull then [] else js_String (showNum env) x) xs)
      | Some (JObj kvs) \<Rightarrow> stringify env (JObj kvs)
      | Some j \<Rightarrow> js_String (showNum env) j)"

definition contextText_of :: "('al, 'v) QueryEnv \<Rightarrow> json option list \<Rightarrow> string" where
  "contextText_of env hits =
     join ''\<newline>\<newline>-----\<newline>\<newline>''
       (filter (\<lambda>s. length s > 4)
          (map (\<lambda>(i, h). ''[S'' @ decimal (i + 1) @ ''] '' @ trim (hit_text env h))
             (enumerate 0 hits)))"

text \<open>
  \<open>QueryService.milvusSearch\<close>: the question is every user turn followed by a space;
  \<open>data[0].embedding\<close> raises when no embedding came back.
\<close>

definition milvusSearch ::
  "('al, 'v) QueryEnv \<Rightarrow> ChatMsg list \<Rightarrow> 'v call list \<Rightarrow> (error + string) \<times> 'v call list" where
  "milvusSearch env msgs calls =
     (let question = concat (map (\<lambda>m. content m @ '' '') (filter (\<lambda>m. role m = User) msgs));
          calls1 = calls @ [CreateEmbeddings [question]]
      in case embeddings env [question] of
           Inl e \<Rightarrow> (Inl e, calls1)
         | Inr [] \<Rightarrow> (Inl TypeError, calls1)
         | Inr (queryVec # _) \<Rightarrow>
             (let calls2 = calls1 @ [MilvusSearch queryVec]
              in case search env queryVec of
                   Inl e \<Rightarrow> (Inl e, calls2)
                 | Inr hits \<Rightarrow> (Inr (contextText_of env hits), calls2)))"

subsection \<open>The entry point\<close>

text \<open>\<open>flattenChatHistoryToString\<close>\<close>

definition flattenChatHistoryToString :: "ChatMsg list \<Rightarrow> string" where
  "flattenChatHistoryToString msgs =
     join ''\<newline>''
       (map (\<lambda>m. role_name (role m) @ '': '' @ trim (content m))
          (filter (\<lambda>m. length (trim (content m)) > 0) msgs))"

text \<open>
  The reply taken from the final completion response:
  \<open>r.choices[0]?.message.content ?? \<dots> ?? 'No output_text.'\<close>. The middle operand is
  evaluated only when the content is \<open>null\<close> or \<open>undefined\<close>, and is then \<open>undefined\<close>.
\<close>

fun final_reply :: "response \<Rightarrow> error + content" where
  "final_reply NoData = Inl TypeError"
| "final_reply NoChoices = Inl TypeError"
| "final_reply NoFirstChoice = Inr (CString ''No output_text.'')"
| "final_reply NoMessage = Inl TypeError"
| "final_reply (Message CNothing) = Inr (CString ''No output_text.'')"
| "final_reply (Message c) = Inr c"

definition MAX_MESSAGES :: int where
  "MAX_MESSAGES = 10"

text \<open>
  The message list of the final completion call: one user message holding the flattened
  system prompt and recent turns.
\<close>

definition finalParams ::
  "('al, 'v) QueryEnv \<Rightarrow> ChatMsg list \<Rightarrow> string list \<Rightarrow> string \<Rightarrow> ChatParams" where
  "finalParams env msgs vectorStoreIds contextText =
     (let systemPrompt =
            \<lparr>role = System,
             content = promptText env @ join '', '' vectorStoreIds @
                       ''\<newline>\<newline>Context for the question:\<newline>\<newline>'' @ contextText\<rparr>;
          recentMessages = js_slice msgs (- MAX_MESSAGES) (int (length msgs));
          fullMessages = systemPrompt # recentMessages
      in \<lparr>messages = [\<lparr>role = User, content = flattenChatHistoryToString fullMessages\<rparr>],
          temperature = 2 / 10, max_tokens = 1500\<rparr>)"

definition handleQuery ::
  "('al, 'v) QueryEnv \<Rightarrow> ChatMsg list \<Rightarrow> string list \<Rightarrow> 'v call list \<Rightarrow>
   (error + 'al QueryResult) \<times> 'v call list" where
  "handleQuery env msgs vectorStoreIds calls =
     (if msgs = [] then (Inl BadRequestException, calls)
      else
        (case getChartSummaryIfAny env msgs calls of
           (Some a, calls1) \<Rightarrow> (Inr a, calls1)
         | (None, calls1) \<Rightarrow>
             (case getAlertsDataIfAny env msgs calls1 of
                (Some b, calls2) \<Rightarrow> (Inr b, calls2)
              | (None, calls2) \<Rightarrow>
                  (case milvusSearch env msgs calls2 of
                     (Inl e, calls3) \<Rightarrow> (Inl e, calls3)
                   | (Inr contextText, calls3) \<Rightarrow>
                       (let params = finalParams env msgs vectorStoreIds contextText;
                            calls4 = calls3 @ [ChatCompletion params]
                        in case chatCompletion env params of
                             Inl e \<Rightarrow> (Inl InternalServerErrorException, calls4)
                           | Inr r \<Rightarrow>
                               (case final_reply r of
                                  Inl e \<Rightarrow> (Inl InternalServerErrorException, calls4)
                                | Inr c \<Rightarrow> (Inr (LLMReply c), calls4)))))))"

subsection \<open>Example collaborators\<close>

text \<open>
  Collaborators for the concrete runs below: a completion service that always answers
  with the text \<open>out\<close>, a parser that knows one chart intent, a number rendering for
  non-negative integers, a pool whose query returns \<open>rows\<close>, no alerts, one embedding
  and one hit.
\<close>

definition demo_intent :: string where
  \<open>demo_intent =
     ''{"wants_chart":true,"asset_urn":"urn:iff:asset:42","metric":"temperature","from":"2025-08-13","to":"2025-08-14"}''\<close>

definition demo_parse :: "string \<Rightarrow> json option" where
  "demo_parse s =
     (if s = demo_intent
      then Some (JObj [(''wants_chart'', JBool True), (''asset_urn'', JStr ''urn:iff:asset:42''),
                       (''metric'', JStr ''temperature''), (''from'', JStr ''2025-08-13''),
                       (''to'', JStr ''2025-08-14'')])
      else None)"

definition demo_env :: "string \<Rightarrow> ChartPoint list \<Rightarrow> (unit, int) QueryEnv" where
  "demo_env out rows =
     \<lparr>chatCompletion = (\<lambda>p. Inr (Message (CString out))),
      parseJSON = demo_parse,
      stringify = (\<lambda>j. ''{}''),
      showNum = (\<lambda>q. decimal (nat \<lfloor>q\<rfloor>)),
      pgPool = Some (\<lambda>urn attributeId from to. Inr rows),
      alertaGet = (\<lambda>urn. Inr []),
      embeddings = (\<lambda>input. Inr [[0, 0]]),
      search = (\<lambda>queryVec. Inr [Some (JObj [(''text'', JStr ''manual page'')])]),
      promptText = ''You are XANA. Selected: ''\<rparr>"

definition fenced_intent :: string where
  "fenced_intent = fence @ ''json\<newline>'' @ demo_intent @ ''\<newline>'' @ fence"

text \<open>The messages a completion call sent; nothing for any other call.\<close>

fun sent_messages :: "'v call \<Rightarrow> ChatMsg list" where
  "sent_messages (ChatCompletion p) = messages p"
| "sent_messages _ = []"

fun is_completion :: "'v call \<Rightarrow> bool" where
  "is_completion (ChatCompletion p) = True"
| "is_completion _ = False"

text \<open>Fifteen turns \<open>m1\<close> to \<open>m15\<close>, a user turn first, roles alternating.\<close>

definition demo_turns :: "ChatMsg list" where
  "demo_turns =
     map (\<lambda>i. \<lparr>role = (if even i then Assistant else User), content = ''m'' @ decimal i\<rparr>)
       [1..<16]"

definition demo_question :: "ChatMsg list" where
  "demo_question = [\<lparr>role = User, content = ''plot temperature of urn:iff:asset:42''\<rparr>]"

definition demo_chart :: "ChartPoint list \<Rightarrow> ChartResult" where
  "demo_chart rows =
     \<lparr>series = rows,
      meta = \<lparr>assetUrn = ''urn:iff:asset:42'', metric = Some (JStr ''temperature''),
              source = ''postgres''\<rparr>\<rparr>"

definition demo_calls :: "int call list" where
  "demo_calls =
     [ChatCompletion (intentParams (chartPrompt ''plot temperature of urn:iff:asset:42'')),
      PgQuery ''urn:iff:asset:42'' ''https://industry-fusion.org/base/v0.1/temperature''
        (JStr ''2025-08-13'') (JStr ''2025-08-14'')]"

definition two_points :: "ChartPoint list" where
  "two_points = [\<lparr>pt_t = ''2025-08-13T10:00:00.000Z'', pt_v = Num 7\<rparr>,
                 \<lparr>pt_t = ''2025-08-13T11:00:00.000Z'', pt_v = Num 3\<rparr>]"

text \<open>The calls of a run on \<open>demo_turns\<close> up to the retrieval step.\<close>

definition demo_calls1 :: "int call list" where
  "demo_calls1 = [ChatCompletion (intentParams (chartPrompt ''m15''))]"

definition demo_calls2 :: "int call list" where
  "demo_calls2 = demo_calls1 @ [ChatCompletion (intentParams (alertPrompt ''m15''))]"

definition demo_calls3 :: "int call list" where
  "demo_calls3 =
     demo_calls2 @ [CreateEmbeddings [''m1 m3 m5 m7 m9 m11 m13 m15 ''], MilvusSearch [0, 0]]"

section \<open>The ingestion pipeline (\<open>RagIngestService\<close>)\<close>

text \<open>
  A vector record. \<open>labels\<close> lists the keys of the object literal in their order; every
  label value is kept as its text.
\<close>

record 'v VectorDoc =
  name :: string
  contentType :: string
  vector :: "'v list"
  labels :: "(string \<times> string) list"

text \<open>
  The machine metadata of an entity: each of its five keys is present or absent, so
  spreading it into a label object overwrites no other label.
\<close>

record MachineMeta =
  machine_id :: "string option"
  asset_name :: "string option"
  dt_version :: "string option"
  ts_start :: "string option"
  ts_end :: "string option"

definition meta_labels :: "MachineMeta \<Rightarrow> (string \<times> string) list" where
  "meta_labels m =
     (case machine_id m of None \<Rightarrow> [] | Some x \<Rightarrow> [(''machine_id'', x)]) @
     (case asset_name m of None \<Rightarrow> [] | Some x \<Rightarrow> [(''asset_name'', x)]) @
     (case dt_version m of None \<Rightarrow> [] | Some x \<Rightarrow> [(''dt_version'', x)]) @
     (case ts_start m of None \<Rightarrow> [] | Some x \<Rightarrow> [(''ts_start'', x)]) @
     (case ts_end m of None \<Rightarrow> [] | Some x \<Rightarrow> [(''ts_end'', x)])"

text \<open>
  The input of a run. \<open>flattenJsonLd\<close> and \<open>jsonLdToParagraphsWithMeta\<close> are not
  unfolded: an entity is given by what they return for it (\<open>flat.id ?? ''\<close>,
  \<open>flat.type ?? ''\<close>, the metadata and the fact paragraphs), or by the error they raise.
  A file is given by its relative path, its base name and, when it could be read and
  parsed, its entities and the PDF URLs \<open>collectPdfUrls\<close> finds in it.
\<close>

record Entity =
  entityId :: string
  entityType :: string
  machineMeta :: MachineMeta
  factParagraphs :: "string list"

record JsonFile =
  relFile :: string
  baseName :: string
  parsed :: "((error + Entity) list \<times> string list) option"

text \<open>
  Collaborators and configuration: the hash, \<open>ionos.createEmbeddings({input})\<close> (giving
  the embedding of each returned record), the HTTP download, \<open>pdfParse\<close> (giving the
  text and the page count as text), \<open>sectionizePdfText\<close> (not unfolded; a section is its
  text and optional heading), the upload, and the numbers read from the environment
  (\<open>embedDim\<close> may be \<open>NaN\<close>).
\<close>

record 'v IngestEnv =
  sha256 :: "string \<Rightarrow> string"
  embed :: "string \<Rightarrow> error + 'v list list"
  httpGet :: "string \<Rightarrow> error + string"
  pdfParse :: "string \<Rightarrow> error + string \<times> string"
  sectionizePdfText :: "string \<Rightarrow> (string \<times> string option) list"
  addDocuments :: "'v VectorDoc list \<Rightarrow> error + unit"
  embedDim :: "int option"
  tokenChunkMin :: int
  tokenChunkMax :: int
  tokenOverlap :: int

text \<open>
  The two sets the service keeps, and the local accumulators of \<open>ingestFolder\<close>. A
  pushed promise is the result its \<open>embedChunk\<close> call will have. \<open>pdfUrls\<close> is a
  \<open>Set\<close>: insertion order, no duplicates.
\<close>

record IngestState =
  seenHashes :: "string set"
  seenPdfFileHashes :: "string set"

record 'v JsonAcc =
  state :: IngestState
  parentDocs :: "(error + 'v VectorDoc) list"
  childDocs :: "(error + 'v VectorDoc) list"
  pdfUrls :: "string list"

definition set_add :: "'a list \<Rightarrow> 'a \<Rightarrow> 'a list" where
  "set_add xs x = (if x \<in> set xs then xs else xs @ [x])"

text \<open>\<open>embedChunk\<close>: \<open>resp.data[0].embedding\<close> raises when \<open>data\<close> is empty.\<close>

definition embedChunk ::
  "'v IngestEnv \<Rightarrow> string \<Rightarrow> string \<Rightarrow> (string \<times> string) list \<Rightarrow> error + 'v VectorDoc" where
  "embedChunk env nm body lbls =
     (case embed env body of
        Inl e \<Rightarrow> Inl e
      | Inr [] \<Rightarrow> Inl TypeError
      | Inr (vec # _) \<Rightarrow>
          Inr \<lparr>name = nm, contentType = ''text/plain'', vector = vec, labels = lbls\<rparr>)"

subsection \<open>JSON-LD sources\<close>

text \<open>The body of \<open>chunks.forEach((ch, idx) => \<dots>)\<close>, over the chunks with their index.\<close>

fun jsonld_chunks ::
  "'v IngestEnv \<Rightarrow> string \<Rightarrow> string \<Rightarrow> string \<Rightarrow> Entity \<Rightarrow> (nat \<times> string) list \<Rightarrow>
   'v JsonAcc \<Rightarrow> 'v JsonAcc" where
  "jsonld_chunks env fl bn parentId ent [] acc = acc"
| "jsonld_chunks env fl bn parentId ent ((idx, ch) # rest) acc =
     (let hash = sha256 env ch
      in if hash \<in> seenHashes (state acc) then jsonld_chunks env fl bn parentId ent rest acc
         else jsonld_chunks env fl bn parentId ent rest
                (acc\<lparr>state := (state acc)\<lparr>seenHashes := insert hash (seenHashes (state acc))\<rparr>,
                     childDocs := childDocs acc @
                       [embedChunk env (bn @ ''#'' @ decimal idx) ch
                          ([(''sha256'', hash), (''source'', fl), (''kind'', ''jsonld''),
                            (''chunk'', decimal idx), (''parent_id'', parentId),
                            (''text'', ch), (''entityId'', entityId ent),
                            (''entityType'', entityType ent)] @ meta_labels (machineMeta ent))]\<rparr>))"

text \<open>
  One entity: nothing when it has no fact paragraph; otherwise the parent record and the
  chunks. \<open>None\<close> when the chunker never returns.
\<close>

definition ingest_entity ::
  "'v IngestEnv \<Rightarrow> string \<Rightarrow> string \<Rightarrow> Entity \<Rightarrow> 'v JsonAcc \<Rightarrow> 'v JsonAcc option" where
  "ingest_entity env fl bn ent acc =
     (if factParagraphs ent = [] then Some acc
      else
        (let parentId = sha256 env (bn @ '':parent'');
             joined = join ''\<newline>'' (factParagraphs ent);
             acc1 = acc\<lparr>parentDocs := parentDocs acc @
                      [embedChunk env (bn @ ''#parent'') joined
                         ([(''kind'', ''parent''), (''source'', fl), (''entityId'', entityId ent),
                           (''entityType'', entityType ent), (''parent_id'', parentId)] @
                          meta_labels (machineMeta ent))]\<rparr>
         in case chunkByTokens joined (tokenChunkMin env) (tokenChunkMax env) (tokenOverlap env) of
              None \<Rightarrow> None
            | Some chunks \<Rightarrow>
                Some (jsonld_chunks env fl bn parentId ent (enumerate 0 chunks) acc1)))"

text \<open>
  The entities of one file, with their index \<open>eidx\<close>; \<open>many\<close> says whether the file
  has more than one entity. An entity whose flattening raises aborts the run.
\<close>

fun ingest_entities ::
  "'v IngestEnv \<Rightarrow> string \<Rightarrow> string \<Rightarrow> bool \<Rightarrow> (nat \<times> (error + Entity)) list \<Rightarrow>
   'v JsonAcc \<Rightarrow> (error + 'v JsonAcc) option" where
  "ingest_entities env fl bn many [] acc = Some (Inr acc)"
| "ingest_entities env fl bn many ((eidx, Inl e) # rest) acc = Some (Inl e)"
| "ingest_entities env fl bn many ((eidx, Inr ent) # rest) acc =
     (case ingest_entity env fl (bn @ (if many then ''@'' @ decimal eidx else [])) ent acc of
        None \<Rightarrow> None
      | Some acc1 \<Rightarrow> ingest_entities env fl bn many rest acc1)"

text \<open>The loop over the files: a file that cannot be read or parsed is skipped.\<close>

fun ingest_files ::
  "'v IngestEnv \<Rightarrow> JsonFile list \<Rightarrow> 'v JsonAcc \<Rightarrow> (error + 'v JsonAcc) option" where
  "ingest_files env [] acc = Some (Inr acc)"
| "ingest_files env (f # fs) acc =
     (case parsed f of
        None \<Rightarrow> ingest_files env fs acc
      | Some (entities, urls) \<Rightarrow>
          (case ingest_entities env (relFile f) (baseName f) (length entities > 1)
                  (enumerate 0 entities) (acc\<lparr>pdfUrls := fold (\<lambda>u us. set_add us u) urls (pdfUrls acc)\<rparr>) of
             None \<Rightarrow> None
           | Some (Inl e) \<Rightarrow> Some (Inl e)
           | Some (Inr acc1) \<Rightarrow> ingest_files env fs acc1))"

text \<open>\<open>Promise.all\<close>: every result, or the first failure.\<close>

fun promise_all :: "(error + 'a) list \<Rightarrow> error + 'a list" where
  "promise_all [] = Inr []"
| "promise_all (Inl e # ps) = Inl e"
| "promise_all (Inr x # ps) = (case promise_all ps of Inl e \<Rightarrow> Inl e | Inr xs \<Rightarrow> Inr (x # xs))"

subsection \<open>PDF sources\<close>

text \<open>\<open>span.includes(heading)\<close> and \<open>pickSectionForSpan\<close>.\<close>

definition js_includes :: "string \<Rightarrow> string \<Rightarrow> bool" where
  "js_includes s h = list_ex (\<lambda>i. take (length h) (drop i s) = h) [0..<Suc (length s)]"

fun pickSectionForSpan :: "(string \<times> string option) list \<Rightarrow> string \<Rightarrow> string" where
  "pickSectionForSpan [] span' = []"
| "pickSectionForSpan ((body, None) # ps) span' = pickSectionForSpan ps span'"
| "pickSectionForSpan ((body, Some heading) # ps) span' =
     (if heading \<noteq> [] \<and> js_includes span' heading then heading else pickSectionForSpan ps span')"

text \<open>What the chunk loop of one PDF keeps fixed.\<close>

record PdfCtx =
  pdfFileHash :: string
  sourceUrl :: string
  fileName :: string
  pageCount :: string
  pdfParentId :: string
  paragraphs :: "(string \<times> string option) list"

text \<open>
  The loop \<open>for (const ch of chunks)\<close> of the worker. A failing \<open>embedChunk\<close> ends the
  worker (its \<open>catch\<close> logs the error); the hash of that chunk is already in the set.
\<close>

fun pdf_chunks ::
  "'v IngestEnv \<Rightarrow> PdfCtx \<Rightarrow> string list \<Rightarrow> nat \<Rightarrow> IngestState \<times> 'v VectorDoc list \<Rightarrow>
   IngestState \<times> 'v VectorDoc list" where
  "pdf_chunks env ctx [] idx (st, out) = (st, out)"
| "pdf_chunks env ctx (ch # rest) idx (st, out) =
     (let combinedHash = sha256 env (pdfFileHash ctx @ '':'' @ ch)
      in if combinedHash \<in> seenHashes st then pdf_chunks env ctx rest idx (st, out)
         else
           (let st1 = st\<lparr>seenHashes := insert combinedHash (seenHashes st)\<rparr>;
                sectionPath = pickSectionForSpan (paragraphs ctx) ch
            in case embedChunk env (fileName ctx @ ''#'' @ decimal idx) ch
                      [(''sha256'', combinedHash), (''pdfFileHash'', pdfFileHash ctx),
                       (''sourceUrl'', sourceUrl ctx), (''filename'', fileName ctx),
                       (''pageCount'', pageCount ctx), (''kind'', ''pdf-text''),
                       (''chunk'', decimal idx), (''parent_id'', pdfParentId ctx),
                       (''text'', ch), (''section_path'', sectionPath)] of
                 Inl e \<Rightarrow> (st1, out)
               | Inr d \<Rightarrow> pdf_chunks env ctx rest (Suc idx) (st1, out @ [d])))"

text \<open>\<open>url.split('/').pop() || 'manual.pdf'\<close>\<close>

definition url_file_name :: "string \<Rightarrow> string" where
  "url_file_name url =
     (let seg = rev (takeWhile (\<lambda>c. c \<noteq> CHR ''/'') (rev url))
      in if seg = [] then ''manual.pdf'' else seg)"

text \<open>
  The worker for one URL. Every failure inside it is caught and ends the worker; \<open>None\<close>
  when the chunker never returns.
\<close>

definition pdf_worker ::
  "'v IngestEnv \<Rightarrow> string \<Rightarrow> IngestState \<times> 'v VectorDoc list \<Rightarrow>
   (IngestState \<times> 'v VectorDoc list) option" where
  "pdf_worker env url acc =
     (case acc of (st, out) \<Rightarrow>
        (case httpGet env url of
           Inl e \<Rightarrow> Some (st, out)
         | Inr buf \<Rightarrow>
             (let hash = sha256 env buf
              in if hash \<in> seenPdfFileHashes st then Some (st, out)
                 else
                   (let st1 = st\<lparr>seenPdfFileHashes := insert hash (seenPdfFileHashes st)\<rparr>
                    in case pdfParse env buf of
                         Inl e \<Rightarrow> Some (st1, out)
                       | Inr (body, pages) \<Rightarrow>
                           (let fullText = trim (filter (\<lambda>c. c \<noteq> CHR 0x0D) body)
                            in if fullText = [] then Some (st1, out)
                               else
                                 (let fn = url_file_name url;
                                      parentId = sha256 env (fn @ '':parent:'' @ hash);
                                      parentText = (if length fullText > 12000
                                                    then js_slice fullText 0 12000 else fullText)
                                  in case embedChunk env (fn @ ''#parent'') parentText
                                            [(''kind'', ''parent''), (''parent_id'', parentId),
                                             (''pdfFileHash'', hash), (''sourceUrl'', url),
                                             (''filename'', fn), (''pageCount'', pages)] of
                                       Inl e \<Rightarrow> Some (st1, out)
                                     | Inr parent \<Rightarrow>
                                         (let ps = sectionizePdfText env fullText;
                                              joined = join ''\<newline>'' (map fst ps)
                                          in case chunkByTokens joined (tokenChunkMin env)
                                                    (tokenChunkMax env) (tokenOverlap env) of
                                               None \<Rightarrow> None
                                             | Some chunks \<Rightarrow>
                                                 Some (pdf_chunks env
                                                   \<lparr>pdfFileHash = hash, sourceUrl = url,
                                                    fileName = fn, pageCount = pages,
                                                    pdfParentId = parentId, paragraphs = ps\<rparr>
                                                   chunks 0 (st1, out @ [parent])))))))))"

text \<open>
  \<open>processPdfs\<close> with the default \<open>pdfConcurrency = 1\<close>: each worker ends before the
  next one starts.
\<close>

fun processPdfs ::
  "'v IngestEnv \<Rightarrow> string list \<Rightarrow> IngestState \<times> 'v VectorDoc list \<Rightarrow>
   (IngestState \<times> 'v VectorDoc list) option" where
  "processPdfs env [] acc = Some acc"
| "processPdfs env (url # urls) acc =
     (case pdf_worker env url acc of None \<Rightarrow> None | Some acc1 \<Rightarrow> processPdfs env urls acc1)"

subsection \<open>The run\<close>

text \<open>
  \<open>ingestFolder\<close> on the listed files, from the sets \<open>st0\<close> the service holds. It
  returns the records it uploaded and the sets it leaves behind; \<open>Inl\<close> when it raises,
  \<open>None\<close> when it never returns.
\<close>

definition ingestFolder ::
  "'v IngestEnv \<Rightarrow> JsonFile list \<Rightarrow> IngestState \<Rightarrow>
   (error + 'v VectorDoc list \<times> IngestState) option" where
  "ingestFolder env targets st0 =
     (case ingest_files env targets
             \<lparr>state = st0, parentDocs = [], childDocs = [], pdfUrls = []\<rparr> of
        None \<Rightarrow> None
      | Some (Inl e) \<Rightarrow> Some (Inl e)
      | Some (Inr acc) \<Rightarrow>
          (case promise_all (parentDocs acc) of
             Inl e \<Rightarrow> Some (Inl e)
           | Inr jsonParents \<Rightarrow>
               (case promise_all (childDocs acc) of
                  Inl e \<Rightarrow> Some (Inl e)
                | Inr jsonChildren \<Rightarrow>
                    (case processPdfs env (pdfUrls acc) (state acc, []) of
                       None \<Rightarrow> None
                     | Some (st1, pdfDocs) \<Rightarrow>
                         (let allDocs =
                                filter (\<lambda>d. Some (int (length (vector d))) = embedDim env)
                                  (jsonParents @ jsonChildren @ pdfDocs)
                          in if allDocs \<noteq> []
                             then (case addDocuments env allDocs of
                                     Inl e \<Rightarrow> Some (Inl e)
                                   | Inr ok \<Rightarrow> Some (Inr (allDocs, st1)))
                             else Some (Inr (allDocs, st1)))))))"

subsection \<open>Fingerprints of uploaded records\<close>

text \<open>
  The fingerprint of a record is its \<open>sha256\<close> label; parent records have none.
  \<open>fingerprints\<close> lists the fingerprints of the records that have one.
\<close>

definition fingerprint :: "'v VectorDoc \<Rightarrow> string option" where
  "fingerprint d = map_of (labels d) ''sha256''"

definition fingerprints :: "'v VectorDoc list \<Rightarrow> string list" where
  "fingerprints ds = List.map_filter fingerprint ds"

text \<open>
  How the fingerprint of a record is made, by the kind of the record: the hash of the
  chunk text for a JSON-LD chunk, the hash of the PDF's file hash, a colon and the chunk
  text for a PDF chunk, none for a parent.
\<close>

definition fingerprint_made :: "'v IngestEnv \<Rightarrow> 'v VectorDoc \<Rightarrow> bool" where
  "fingerprint_made env d =
     (case (map_of (labels d) ''kind'', map_of (labels d) ''text'') of
        (Some k, Some body) \<Rightarrow>
          if k = ''jsonld'' then fingerprint d = Some (sha256 env body)
          else if k = ''pdf-text''
          then (case map_of (labels d) ''pdfFileHash'' of
                  Some h \<Rightarrow> fingerprint d = Some (sha256 env (h @ '':'' @ body))
                | None \<Rightarrow> False)
          else False
      | (Some k, None) \<Rightarrow> k = ''parent'' \<and> fingerprint d = None
      | (None, b) \<Rightarrow> False)"

text \<open>
  The successful results among pushed promises, and the invariants of a run used in the
  proofs: the fingerprints \<open>F\<close> of the records built so far are distinct, are in the
  seen set, and none was in the set \<open>seen0\<close> the run started from.
\<close>

fun rights :: "(error + 'a) list \<Rightarrow> 'a list" where
  "rights [] = []"
| "rights (Inl e # ps) = rights ps"
| "rights (Inr x # ps) = x # rights ps"

definition fresh_inv :: "string set \<Rightarrow> string set \<Rightarrow> string list \<Rightarrow> bool" where
  "fresh_inv seen0 seen F \<longleftrightarrow> distinct F \<and> set F \<subseteq> seen \<and> set F \<inter> seen0 = {} \<and> seen0 \<subseteq> seen"

definition json_inv :: "'v IngestEnv \<Rightarrow> string set \<Rightarrow> 'v JsonAcc \<Rightarrow> bool" where
  "json_inv env seen0 acc \<longleftrightarrow>
     fresh_inv seen0 (seenHashes (state acc)) (fingerprints (rights (childDocs acc))) \<and>
     (\<forall>d\<in>set (rights (parentDocs acc)). fingerprint d = None \<and> fingerprint_made env d) \<and>
     (\<forall>d\<in>set (rights (childDocs acc)). fingerprint_made env d)"

definition pdf_inv ::
  "'v IngestEnv \<Rightarrow> string set \<Rightarrow> string list \<Rightarrow> IngestState \<times> 'v VectorDoc list \<Rightarrow> bool" where
  "pdf_inv env seen0 F0 acc \<longleftrightarrow>
     fresh_inv seen0 (seenHashes (fst acc)) (F0 @ fingerprints (snd acc)) \<and>
     (\<forall>d\<in>set (snd acc). fingerprint_made env d)"

subsection \<open>An example run\<close>

text \<open>
  A stand-in hash that is injective, an embedding service that returns one vector of
  the configured dimension, one JSON-LD file with one entity whose facts are the words
  \<open>alpha beta\<close> and which names one PDF, and a PDF whose text is the same two words.
\<close>

definition demo_hash :: "string \<Rightarrow> string" where
  "demo_hash s = ''h('' @ s @ '')''"

definition demo_ingest_env :: "int IngestEnv" where
  "demo_ingest_env =
     \<lparr>sha256 = demo_hash,
      embed = (\<lambda>body. Inr [[1, 2]]),
      httpGet = (\<lambda>url. Inr ''%PDF-bytes''),
      pdfParse = (\<lambda>buf. Inr (''alpha beta'', ''1'')),
      sectionizePdfText = (\<lambda>t. [(t @ ''\<newline>'', None)]),
      addDocuments = (\<lambda>ds. Inr ()),
      embedDim = Some 2,
      tokenChunkMin = 200, tokenChunkMax = 400, tokenOverlap = 80\<rparr>"

definition demo_files :: "JsonFile list" where
  "demo_files =
     [\<lparr>relFile = ''machine.json'', baseName = ''machine.json'',
       parsed = Some
         ([Inr \<lparr>entityId = ''urn:iff:asset:42'', entityType = ''Machine'',
                 machineMeta = \<lparr>machine_id = Some ''urn:iff:asset:42'', asset_name = None,
                                 dt_version = None, ts_start = None, ts_end = None\<rparr>,
                 factParagraphs = [''alpha beta'']\<rparr>],
          [''http://docs/manual.pdf''])\<rparr>]"

definition no_hashes :: IngestState where
  "no_hashes = \<lparr>seenHashes = {}, seenPdfFileHashes = {}\<rparr>"

text \<open>The kind, the text and the fingerprint of each record a run uploaded.\<close>

definition uploaded_records ::
  "(error + 'v VectorDoc list \<times> IngestState) option \<Rightarrow>
   (string option \<times> string option \<times> string option) list" where
  "uploaded_records res =
     (case res of
        Some (Inr (uploaded, st)) \<Rightarrow>
          map (\<lambda>d. (map_of (labels d) ''kind'', map_of (labels d) ''text'', fingerprint d)) uploaded
      | _ \<Rightarrow> [])"

text \<open>One file with two entities whose facts are the same words, and no PDF.\<close>

definition demo_twins :: "JsonFile list" where
  "demo_twins =
     [\<lparr>relFile = ''twins.json'', baseName = ''twins.json'',
       parsed = Some
         ([Inr \<lparr>entityId = ''urn:iff:asset:1'', entityType = ''Machine'',
                 machineMeta = \<lparr>machine_id = None, asset_name = None, dt_version = None,
                                 ts_start = None, ts_end = None\<rparr>,
                 factParagraphs = [''alpha beta'']\<rparr>,
           Inr \<lparr>entityId = ''urn:iff:asset:2'', entityType = ''Machine'',
                 machineMeta = \<lparr>machine_id = None, asset_name = None, dt_version = None,
                                 ts_start = None, ts_end = None\<rparr>,
                 factParagraphs = [''alpha beta'']\<rparr>],
          [])\<rparr>]"

section \<open>Facts about the string built-ins\<close>

lemma split_ws_last:
  "dropWhile (\<lambda>c. \<not> is_space c) s = [] \<Longrightarrow> split_ws s = [takeWhile (\<lambda>c. \<not> is_space c) s]"
  by (subst split_ws.simps) (simp only: Let_def simp_thms if_True)

lemma split_ws_more:
  "dropWhile (\<lambda>c. \<not> is_space c) s \<noteq> [] \<Longrightarrow>
   split_ws s = takeWhile (\<lambda>c. \<not> is_space c) s #
                split_ws (dropWhile is_space (dropWhile (\<lambda>c. \<not> is_space c) s))"
  by (subst split_ws.simps) (simp only: Let_def simp_thms if_False)

lemma split_ws_no_space: "w \<in> set (split_ws s) \<Longrightarrow> \<forall>c\<in>set w. \<not> is_space c"
proof (induction s arbitrary: w rule: split_ws.induct)
  case (1 s)
  let ?r = "dropWhile (\<lambda>c. \<not> is_space c) s"
  have tw: "\<forall>c\<in>set (takeWhile (\<lambda>c. \<not> is_space c) s). \<not> is_space c"
    by (auto dest: set_takeWhileD)
  show ?case
  proof (cases "?r = []")
    case True
    with "1.prems" tw show ?thesis
      by (simp add: split_ws_last)
  next
    case False
    from "1.prems" False
    have "w = takeWhile (\<lambda>c. \<not> is_space c) s \<or> w \<in> set (split_ws (dropWhile is_space ?r))"
      by (simp add: split_ws_more)
    then show ?thesis
      using tw "1.IH" [OF refl refl False] by blast
  qed
qed

lemma js_words_good: "w \<in> set (js_words s) \<Longrightarrow> good_word w"
  by (auto simp: js_words_def good_word_def dest: split_ws_no_space)

lemma split_ws_word: 
  assumes "\<forall>c\<in>set x. \<not> is_space c"
  shows "split_ws x = [x]"
proof -
  have "takeWhile (\<lambda>c. \<not> is_space c) x = x" "dropWhile (\<lambda>c. \<not> is_space c) x = []"
    using assms by auto
  then show ?thesis by (simp add: split_ws_last)
qed

lemma split_ws_word_space:
  assumes x: "\<forall>c\<in>set x. \<not> is_space c" and r: "rest \<noteq> []" "\<not> is_space (hd rest)"
  shows "split_ws (x @ '' '' @ rest) = x # split_ws rest"
proof -
  have sp: "is_space CHR '' ''" by (simp add: is_space_def)
  have t: "takeWhile (\<lambda>c. \<not> is_space c) (x @ '' '' @ rest) = x"
    using x sp by (simp add: takeWhile_append2)
  have d: "dropWhile (\<lambda>c. \<not> is_space c) (x @ '' '' @ rest) = '' '' @ rest"
    using x sp by (simp add: dropWhile_append2)
  have d2: "dropWhile is_space ('' '' @ rest) = rest"
    using r sp by (cases rest) auto
  have "dropWhile (\<lambda>c. \<not> is_space c) (x @ '' '' @ rest) \<noteq> []"
    using d by simp
  from split_ws_more [OF this] show ?thesis
    by (simp only: t d d2)
qed

lemma join_hd: "ws \<noteq> [] \<Longrightarrow> \<forall>w\<in>set ws. good_word w \<Longrightarrow> join sep ws \<noteq> [] \<and> hd (join sep ws) = hd (hd ws)"
  by (induction sep ws rule: join.induct) (auto simp: good_word_def)

lemma join_last: "ws \<noteq> [] \<Longrightarrow> \<forall>w\<in>set ws. good_word w \<Longrightarrow> last (join sep ws) = last (last ws)"
proof (induction sep ws rule: join.induct)
  case (3 sep x y ys)
  then have "join sep (y # ys) \<noteq> []" using join_hd [of "y # ys" sep] by simp
  with 3 show ?case by simp
qed auto

lemma split_ws_join:
  "ws \<noteq> [] \<Longrightarrow> \<forall>w\<in>set ws. good_word w \<Longrightarrow> split_ws (join '' '' ws) = ws"
proof (induction "'' ''" ws rule: join.induct)
  case 1
  then show ?case by simp
next
  case (2 x)
  then show ?case by (simp add: split_ws_word good_word_def)
next
  case (3 x y ys)
  have g: "\<forall>w\<in>set (y # ys). good_word w" using 3 by simp
  from join_hd [of "y # ys" "'' ''"] g
  have ne: "join '' '' (y # ys) \<noteq> []" and h: "hd (join '' '' (y # ys)) = hd y"
    by simp_all
  have "\<not> is_space (hd y)" using g by (cases y) (auto simp: good_word_def)
  with h have ns: "\<not> is_space (hd (join '' '' (y # ys)))" by simp
  have x: "\<forall>c\<in>set x. \<not> is_space c" using 3 by (simp add: good_word_def)
  have "split_ws (x @ '' '' @ join '' '' (y # ys)) = x # split_ws (join '' '' (y # ys))"
    by (rule split_ws_word_space [OF x ne ns])
  with 3 g show ?case by simp
qed

lemma js_words_join: "\<forall>w\<in>set ws. good_word w \<Longrightarrow> js_words (join '' '' ws) = ws"
proof (cases "ws = []")
  case True
  then show ?thesis by (simp add: js_words_def split_ws.simps)
next
  case False
  assume g: "\<forall>w\<in>set ws. good_word w"
  then have "filter (\<lambda>w. w \<noteq> []) ws = ws"
    by (auto simp: good_word_def intro: filter_True)
  with False g show ?thesis by (simp add: js_words_def split_ws_join)
qed

lemma trim_id: "s = [] \<or> (\<not> is_space (hd s) \<and> \<not> is_space (last s)) \<Longrightarrow> trim s = s"
proof (cases s)
  case Nil
  then show ?thesis by (simp add: trim_def)
next
  case (Cons a as)
  assume "s = [] \<or> (\<not> is_space (hd s) \<and> \<not> is_space (last s))"
  with Cons have h: "\<not> is_space a" and l: "\<not> is_space (last s)" by auto
  have "dropWhile is_space s = s" using Cons h by simp
  moreover have "hd (rev s) = last s"
    using Cons by (simp only: hd_rev)
  then have "dropWhile is_space (rev s) = rev s"
    using l by (simp only: dropWhile_eq_self_iff simp_thms)
  ultimately show ?thesis by (simp add: trim_def)
qed

lemma trim_join: 
  assumes "\<forall>w\<in>set ws. good_word w"
  shows "trim (join '' '' ws) = join '' '' ws"
proof (cases "ws = []")
  case True
  then show ?thesis by (simp add: trim_def)
next
  case False
  have "good_word (hd ws)" "good_word (last ws)" using False assms by auto
  then have "\<not> is_space (hd (hd ws))" "\<not> is_space (last (last ws))"
    by (auto simp: good_word_def)
  with join_hd [OF False assms, of "'' ''"] join_last [OF False assms, of "'' ''"]
  show ?thesis by (intro trim_id) simp
qed

lemma set_join: "set (join sep ws) \<subseteq> set sep \<union> (\<Union>w\<in>set ws. set w)"
  by (induction sep ws rule: join.induct) auto

lemma lastIndexOf_absent:
  assumes "CHR 0x0A \<notin> set s"
  shows "lastIndexOf s paragraph_break = - 1"
proof -
  have "\<And>i. take (length paragraph_break) (drop i s) \<noteq> paragraph_break"
  proof
    fix i assume "take (length paragraph_break) (drop i s) = paragraph_break"
    then have "CHR 0x0A \<in> set (take (length paragraph_break) (drop i s))"
      by (simp add: paragraph_break_def)
    then have "CHR 0x0A \<in> set s" by (meson in_set_dropD in_set_takeD)
    with assms show False by simp
  qed
  then have "filter (\<lambda>i. take (length paragraph_break) (drop i s) = paragraph_break)
                (rev [0..<Suc (length s)]) = []"
    by simp
  then show ?thesis unfolding lastIndexOf_def by simp
qed

lemma join_no_break:
  assumes "\<forall>w\<in>set ws. good_word w"
  shows "lastIndexOf (join '' '' ws) paragraph_break = - 1"
proof (rule lastIndexOf_absent)
  have nl: "is_space (CHR 0x0A)" by (simp add: is_space_def)
  show "CHR 0x0A \<notin> set (join '' '' ws)"
  proof
    assume "CHR 0x0A \<in> set (join '' '' ws)"
    with set_join [of "'' ''" ws] obtain w where "w \<in> set ws" "CHR 0x0A \<in> set w"
      by auto
    with assms nl show False by (auto simp: good_word_def)
  qed
qed

lemma set_js_slice: "set (js_slice xs b e) \<subseteq> set xs"
  by (auto simp: js_slice_def Let_def dest: in_set_takeD in_set_dropD)

lemma js_slice_nat: "e \<le> length xs \<Longrightarrow> js_slice xs (int s) (int e) = take (e - s) (drop s xs)"
  by (auto simp: js_slice_def Let_def min_def nat_diff_distrib')

section \<open>The chunker loop and its windows\<close>

lemma good_slice: "\<forall>w\<in>set words. good_word w \<Longrightarrow> \<forall>w\<in>set (js_slice words b e). good_word w"
  using set_js_slice [of words b e] by (meson subsetD)

lemma chunk_end_good:
  assumes "\<forall>w\<in>set words. good_word w"
  shows "chunk_end words mn mx start = min (int (length words)) (start + mx)"
proof -
  let ?target = "min (int (length words)) (start + mx)"
  have "lastIndexOf (join '' '' (js_slice words start ?target)) paragraph_break = - 1"
    by (rule join_no_break [OF good_slice [OF assms]])
  then have "\<not> lastIndexOf (join '' '' (js_slice words start ?target)) paragraph_break > - 1"
    by simp
  then show ?thesis
    unfolding chunk_end_def Let_def by (rule if_not_P)
qed

lemma chunk_piece_good:
  assumes "\<forall>w\<in>set words. good_word w"
  shows "chunk_piece words start e = join '' '' (js_slice words start e)"
  unfolding chunk_piece_def by (rule trim_join [OF good_slice [OF assms]])

lemma join_nonempty: "ws \<noteq> [] \<Longrightarrow> \<forall>w\<in>set ws. good_word w \<Longrightarrow> join sep ws \<noteq> []"
  using join_hd by blast

lemma chunk_loop_step:
  assumes good: "\<forall>w\<in>set words. good_word w" and lt: "start < int (length words)"
  shows "chunk_loop words mn mx ov start chunks =
     (let e = min (int (length words)) (start + mx);
          piece = join '' '' (js_slice words start e);
          chunks' = (if piece \<noteq> [] then chunks @ [piece] else chunks)
      in if e \<ge> int (length words) then Some chunks'
         else chunk_loop words mn mx ov (max 0 (e - ov)) chunks')"
  by (subst chunk_loop.simps)
     (simp only: chunk_end_good [OF good] chunk_piece_good [OF good] lt if_True)

lemma chunk_loop_windows:
  assumes good: "\<forall>w\<in>set ws. good_word w"
  shows "ov < mx \<Longrightarrow> s < length ws \<Longrightarrow>
         chunk_loop ws mn (int mx) (int ov) (int s) chunks =
           Some (chunks @ map (join '' '') (windows ws mx ov s))"
  using good
proof (induction ws mx ov s arbitrary: chunks rule: windows.induct)
  case (1 ws mx ov s)
  note g = "1.prems"(3)
  have lt: "int s < int (length ws)" using "1.prems" by simp
  have dn: "drop s ws \<noteq> []" using "1.prems" by simp
  show ?case
  proof (cases "length ws \<le> s + mx")
    case True
    then have e: "min (int (length ws)) (int s + int mx) = int (length ws)" by simp
    have sl: "js_slice ws (int s) (int (length ws)) = drop s ws"
      by (simp add: js_slice_nat)
    have ne: "join '' '' (drop s ws) \<noteq> []"
      using dn g by (intro join_nonempty) (auto dest: in_set_dropD)
    have w: "windows ws mx ov s = [drop s ws]"
      using True by (simp add: windows.simps)
    show ?thesis
      by (subst chunk_loop_step [OF g lt]) (simp only: e sl w Let_def, simp add: ne)
  next
    case False
    then have e: "min (int (length ws)) (int s + int mx) = int (s + mx)" by simp
    have sl: "js_slice ws (int s) (int (s + mx)) = take mx (drop s ws)"
      using False js_slice_nat [of "s + mx" ws s] by simp
    have tn: "take mx (drop s ws) \<noteq> []" using dn "1.prems" by simp
    have ne: "join '' '' (take mx (drop s ws)) \<noteq> []"
      using tn g by (intro join_nonempty) (auto dest: in_set_dropD in_set_takeD)
    have w: "windows ws mx ov s = take mx (drop s ws) # windows ws mx ov (s + mx - ov)"
      using False "1.prems" by (simp add: windows.simps)
    have nx: "max 0 (int (s + mx) - int ov) = int (s + mx - ov)"
      using "1.prems" by simp
    have notge: "\<not> int (s + mx) \<ge> int (length ws)" using False by simp
    have c: "\<not> (length ws \<le> s + mx \<or> mx \<le> ov)" using False "1.prems" by simp
    have s': "s + mx - ov < length ws" using False by simp
    have ih: "chunk_loop ws mn (int mx) (int ov) (int (s + mx - ov)) (chunks @ [join '' '' (take mx (drop s ws))]) =
          Some ((chunks @ [join '' '' (take mx (drop s ws))]) @ map (join '' '') (windows ws mx ov (s + mx - ov)))"
      by (rule "1.IH" [OF c "1.prems"(1) s' g])
    show ?thesis
      by (subst chunk_loop_step [OF g lt]) (simp only: e sl w Let_def nx notge if_False ne, simp add: ne ih)
  qed
qed

lemma windows_hd:
  "ov < mx \<Longrightarrow> \<exists>rest. windows ws mx ov s = take mx (drop s ws) # rest"
  by (subst windows.simps) simp

lemma windows_set: "w \<in> set (windows ws mx ov s) \<Longrightarrow> set w \<subseteq> set ws"
proof (induction ws mx ov s rule: windows.induct)
  case (1 ws mx ov s)
  show ?case
  proof (cases "length ws \<le> s + mx \<or> mx \<le> ov")
    case True
    with "1.prems" have "w = drop s ws" by (simp add: windows.simps)
    then show ?thesis by (simp add: set_drop_subset)
  next
    case False
    with "1.prems" have "w = take mx (drop s ws) \<or> w \<in> set (windows ws mx ov (s + mx - ov))"
      by (subst (asm) windows.simps) simp
    then show ?thesis
      using "1.IH" [OF False] by (auto dest: in_set_takeD in_set_dropD)
  qed
qed

lemma windows_tails: "ov < mx \<Longrightarrow> concat (map (drop ov) (windows ws mx ov s)) = drop (s + ov) ws"
proof (induction ws mx ov s rule: windows.induct)
  case (1 ws mx ov s)
  show ?case
  proof (cases "length ws \<le> s + mx")
    case True
    then show ?thesis by (simp add: windows.simps add.commute)
  next
    case False
    with "1.prems" have c: "\<not> (length ws \<le> s + mx \<or> mx \<le> ov)" by simp
    have w: "windows ws mx ov s = take mx (drop s ws) # windows ws mx ov (s + mx - ov)"
      using c by (subst windows.simps) simp
    have ih: "concat (map (drop ov) (windows ws mx ov (s + mx - ov))) = drop (s + mx) ws"
      using "1.IH" [OF c "1.prems"] "1.prems" by simp
    have "drop ov (take mx (drop s ws)) = take (mx - ov) (drop (s + ov) ws)"
      by (simp add: drop_take add.commute)
    moreover have "drop (s + mx) ws = drop (mx - ov) (drop (s + ov) ws)"
      using "1.prems" by (simp add: add.commute)
    ultimately show ?thesis
      by (simp only: w ih list.map concat.simps append_take_drop_id)
  qed
qed

lemma windows_unoverlap: "ov < mx \<Longrightarrow> unoverlap ov (windows ws mx ov s) = drop s ws"
proof (cases "length ws \<le> s + mx")
  case True
  then show ?thesis by (simp add: windows.simps)
next
  case False
  assume lt: "ov < mx"
  then have w: "windows ws mx ov s = take mx (drop s ws) # windows ws mx ov (s + mx - ov)"
    using False by (subst windows.simps) simp
  have "concat (map (drop ov) (windows ws mx ov (s + mx - ov))) = drop (s + mx) ws"
    using windows_tails [OF lt, of ws "s + mx - ov"] lt by simp
  moreover have "drop (s + mx) ws = drop mx (drop s ws)"
    by (simp add: add.commute)
  ultimately show ?thesis
    by (simp only: w unoverlap.simps append_take_drop_id)
qed

lemma windows_overlaps: "ov < mx \<Longrightarrow> overlaps ov (windows ws mx ov s)"
proof (induction ws mx ov s rule: windows.induct)
  case (1 ws mx ov s)
  show ?case
  proof (cases "length ws \<le> s + mx")
    case True
    then show ?thesis by (simp add: windows.simps)
  next
    case False
    with "1.prems" have c: "\<not> (length ws \<le> s + mx \<or> mx \<le> ov)" by simp
    have w: "windows ws mx ov s = take mx (drop s ws) # windows ws mx ov (s + mx - ov)"
      using c by (subst windows.simps) simp
    obtain rest where r: "windows ws mx ov (s + mx - ov) = take mx (drop (s + mx - ov) ws) # rest"
      using windows_hd [OF "1.prems"] by blast
    have ih: "overlaps ov (take mx (drop (s + mx - ov) ws) # rest)"
      using "1.IH" [OF c "1.prems"] r by simp
    have la: "length (take mx (drop s ws)) = mx" using False by simp
    have lb: "ov \<le> length (take mx (drop (s + mx - ov) ws))"
      using False "1.prems" by simp
    have "take ov (take mx (drop (s + mx - ov) ws)) = take ov (drop (s + mx - ov) ws)"
      using "1.prems" by (simp add: min_def)
    moreover have "drop (mx - ov) (take mx (drop s ws)) = take ov (drop (s + mx - ov) ws)"
      using "1.prems" by (simp add: drop_take add.commute)
    ultimately have "take ov (take mx (drop (s + mx - ov) ws)) =
        drop (length (take mx (drop s ws)) - ov) (take mx (drop s ws))"
      by (simp only: la)
    with ih la lb "1.prems" show ?thesis
      by (simp only: w r overlaps.simps) simp
  qed
qed

lemma windows_last: "ov < mx \<Longrightarrow> s < length ws \<Longrightarrow>
   \<exists>k<length ws. last (windows ws mx ov s) = drop k ws"
proof (induction ws mx ov s rule: windows.induct)
  case (1 ws mx ov s)
  show ?case
  proof (cases "length ws \<le> s + mx")
    case True
    then have "windows ws mx ov s = [drop s ws]" by (simp add: windows.simps)
    with "1.prems" show ?thesis by auto
  next
    case False
    with "1.prems" have c: "\<not> (length ws \<le> s + mx \<or> mx \<le> ov)" by simp
    have w: "windows ws mx ov s = take mx (drop s ws) # windows ws mx ov (s + mx - ov)"
      using c by (subst windows.simps) simp
    obtain rest where r: "windows ws mx ov (s + mx - ov) = take mx (drop (s + mx - ov) ws) # rest"
      using windows_hd [OF "1.prems"(1)] by blast
    have s': "s + mx - ov < length ws" using False by simp
    from "1.IH" [OF c "1.prems"(1) s'] r w show ?thesis by simp
  qed
qed

section \<open>Properties of the chunker\<close>

lemma js_words_all_good: "\<forall>w\<in>set (js_words text). good_word w"
  using js_words_good by blast

lemma chunk_windows:
  assumes "0 \<le> ov" "ov < mx" "js_words text \<noteq> []"
  shows "chunkByTokens text mn mx ov =
           Some (map (join '' '') (windows (js_words text) (nat mx) (nat ov) 0))"
proof -
  have "chunk_loop (js_words text) mn (int (nat mx)) (int (nat ov)) (int 0) [] =
          Some ([] @ map (join '' '') (windows (js_words text) (nat mx) (nat ov) 0))"
    using assms by (intro chunk_loop_windows js_words_all_good) auto
  with assms show ?thesis
    by (simp add: chunkByTokens_def Let_def)
qed

lemma windows_tokens:
  assumes "\<forall>w\<in>set ws. good_word w"
  shows "map js_words (map (join '' '') (windows ws mx ov s)) = windows ws mx ov s"
proof -
  have "\<forall>w\<in>set (windows ws mx ov s). js_words (join '' '' w) = w"
  proof
    fix w assume "w \<in> set (windows ws mx ov s)"
    then have "set w \<subseteq> set ws" by (rule windows_set)
    with assms have "\<forall>x\<in>set w. good_word x" by blast
    then show "js_words (join '' '' w) = w" by (rule js_words_join)
  qed
  then show ?thesis by (simp add: map_idI)
qed

text \<open>
  Claim C3. For every text and all \<open>minTokens\<close>, \<open>maxTokens\<close>, \<open>overlap\<close> with
  \<open>0 \<le> overlap < maxTokens\<close>, \<open>chunkByTokens\<close> returns, each chunk ends with the
  \<open>overlap\<close> words its successor starts with (the final chunk has no successor), and
  the first chunk followed by every later chunk without its leading \<open>overlap\<close> words is
  the word sequence of the input.
\<close>

theorem chunk_overlap_reconstruct:
  assumes "0 \<le> overlap" and "overlap < maxTokens"
  shows "\<exists>chunks. chunkByTokens text minTokens maxTokens overlap = Some chunks \<and>
           overlaps (nat overlap) (map js_words chunks) \<and>
           unoverlap (nat overlap) (map js_words chunks) = js_words text"
proof (cases "js_words text = []")
  case True
  then show ?thesis by (simp add: chunkByTokens_def)
next
  case False
  let ?ws = "windows (js_words text) (nat maxTokens) (nat overlap) 0"
  have lt: "nat overlap < nat maxTokens" using assms by simp
  have c: "chunkByTokens text minTokens maxTokens overlap = Some (map (join '' '') ?ws)"
    by (rule chunk_windows [OF assms False])
  have t: "map js_words (map (join '' '') ?ws) = ?ws"
    by (rule windows_tokens [OF js_words_all_good])
  have "overlaps (nat overlap) ?ws"
    by (rule windows_overlaps [OF lt])
  moreover have "unoverlap (nat overlap) ?ws = js_words text"
    using windows_unoverlap [OF lt, of "js_words text" 0] by simp
  ultimately show ?thesis
    using c t by simp
qed

text \<open>Five words in windows of four with an overlap of three.\<close>

theorem chunk_overlap_reconstruct_witness:
  "(0::int) \<le> 3 \<and> (3::int) < 4 \<and>
   chunkByTokens ''a b c d e'' 1 4 3 = Some [''a b c d'', ''b c d e''] \<and>
   overlaps 3 (map js_words [''a b c d'', ''b c d e'']) \<and>
   unoverlap 3 (map js_words [''a b c d'', ''b c d e'']) = js_words ''a b c d e''"
proof -
  have e: "chunkByTokens ''a b c d e'' 1 4 3 = Some [''a b c d'', ''b c d e'']"
    by code_simp
  from chunk_overlap_reconstruct [of 3 4 "''a b c d e''" 1] e
  show ?thesis by simp
qed

text \<open>
  Claim C5, amended. For every text and all parameters with
  \<open>0 \<le> overlap < maxTokens\<close> the loop returns, and when the input has a word the last
  chunk is a non-empty suffix of the input's words: the last window ends where the input
  ends.
\<close>

theorem chunk_terminates_at_end:
  assumes "0 \<le> overlap" and "overlap < maxTokens"
  shows "\<exists>chunks. chunkByTokens text minTokens maxTokens overlap = Some chunks \<and>
           (js_words text \<noteq> [] \<longrightarrow>
              chunks \<noteq> [] \<and> js_words (last chunks) \<noteq> [] \<and>
              suffix (js_words (last chunks)) (js_words text))"
proof (cases "js_words text = []")
  case True
  then show ?thesis by (simp add: chunkByTokens_def)
next
  case False
  let ?ws = "windows (js_words text) (nat maxTokens) (nat overlap) 0"
  have lt: "nat overlap < nat maxTokens" using assms by simp
  have c: "chunkByTokens text minTokens maxTokens overlap = Some (map (join '' '') ?ws)"
    by (rule chunk_windows [OF assms False])
  have t: "map js_words (map (join '' '') ?ws) = ?ws"
    by (rule windows_tokens [OF js_words_all_good])
  have ne: "?ws \<noteq> []" using windows_hd [OF lt, of "js_words text" 0] by auto
  obtain k where k: "k < length (js_words text)" "last ?ws = drop k (js_words text)"
    using windows_last [OF lt, of 0 "js_words text"] False by auto
  have "js_words (last (map (join '' '') ?ws)) = last ?ws"
    using ne t by (metis last_map map_is_Nil_conv)
  with k have "js_words (last (map (join '' '') ?ws)) = drop k (js_words text)" by simp
  moreover have "drop k (js_words text) \<noteq> []" using k by simp
  moreover have "suffix (drop k (js_words text)) (js_words text)" by (rule suffix_drop)
  ultimately show ?thesis using c ne by simp
qed

text \<open>Three words in windows of two with an overlap of one.\<close>

theorem chunk_terminates_at_end_witness:
  "(0::int) \<le> 1 \<and> (1::int) < 2 \<and>
   chunkByTokens ''a b c'' 1 2 1 = Some [''a b'', ''b c''] \<and> js_words ''a b c'' \<noteq> [] \<and>
   suffix (js_words (last [''a b'', ''b c''])) (js_words ''a b c'')"
proof -
  have e: "chunkByTokens ''a b c'' 1 2 1 = Some [''a b'', ''b c'']"
    by code_simp
  have w: "js_words ''a b c'' \<noteq> []" by code_simp
  from chunk_terminates_at_end [of 1 2 "''a b c''" 1] e w
  show ?thesis by simp
qed

text \<open>
  With \<open>maxTokens = 0\<close> and \<open>overlap = 0\<close> every round of the loop computes
  \<open>end = start = 0\<close>, pushes nothing and starts again at \<open>0\<close>.
\<close>

lemma chunk_loop_stuck:
  assumes "chunk_loop words mn mx ov start chunks = Some y"
  shows "\<not> (words = [''a''] \<and> mx = 0 \<and> ov = 0 \<and> start = 0)"
proof (rule chunk_loop.raw_induct
    [where P = "\<lambda>words mn mx ov start chunks y.
                  \<not> (words = [''a''] \<and> mx = 0 \<and> ov = 0 \<and> start = 0)", OF _ assms],
    goal_cases)
  case prems: (1 f words mn mx ov start chunks y)
  show ?case
  proof
    assume a: "words = [''a''] \<and> mx = 0 \<and> ov = 0 \<and> start = 0"
    have g: "\<forall>w\<in>set [''a'']. good_word w" by (simp add: good_word_def is_space_def)
    have e: "chunk_end [''a''] mn 0 0 = 0" by (simp add: chunk_end_good [OF g])
    define chunks' where "chunks' =
      (if chunk_piece [''a''] 0 0 \<noteq> [] then chunks @ [chunk_piece [''a''] 0 0] else chunks)"
    from prems(2) a e have "f [''a''] mn 0 0 0 chunks' = Some y"
      by (simp add: Let_def chunks'_def)
    from prems(1) [OF this] show False by simp
  qed
qed

text \<open>
  Claim C5 as stated, for every parameter value, fails. On the one-word text \<open>a\<close> with
  \<open>maxTokens = 0\<close> and \<open>overlap = 0\<close> the loop never returns. With a negative
  \<open>overlap\<close> the loop returns, but the cursor jumps past the end of the input and the
  last window, \<open>a b\<close>, does not reach it.
\<close>

theorem chunk_loop_counterexample:
  "chunkByTokens ''a'' 0 0 0 = None \<and>
   chunkByTokens ''a b c d e'' 1 2 (- 10) = Some [''a b'']"
proof
  have w: "js_words ''a'' = [''a'']" by code_simp
  have "chunk_loop [''a''] 0 0 0 0 [] = None"
  proof (cases "chunk_loop [''a''] 0 0 0 0 []")
    case (Some y)
    from chunk_loop_stuck [OF this] show ?thesis by simp
  qed simp
  with w show "chunkByTokens ''a'' 0 0 0 = None" by (simp add: chunkByTokens_def)
next
  show "chunkByTokens ''a b c d e'' 1 2 (- 10) = Some [''a b'']" by code_simp
qed

text \<open>
  Claim C10, amended. For all parameters the empty string gives no chunk. When
  \<open>minTokens \<le> maxTokens\<close>, a text with at least one word and fewer than
  \<open>minTokens\<close> words gives exactly one chunk, whose words are the words of the text;
  \<open>overlap\<close> plays no part.
\<close>

theorem chunk_empty_and_short:
  "chunkByTokens [] minTokens maxTokens overlap = Some [] \<and>
   (minTokens \<le> maxTokens \<longrightarrow> js_words text \<noteq> [] \<longrightarrow>
    int (length (js_words text)) < minTokens \<longrightarrow>
      chunkByTokens text minTokens maxTokens overlap = Some [join '' '' (js_words text)] \<and>
      js_words (join '' '' (js_words text)) = js_words text)"
proof (intro conjI impI)
  have "dropWhile (\<lambda>c. \<not> is_space c) [] = []" by simp
  then have "js_words [] = []" by (simp add: js_words_def split_ws_last)
  then show "chunkByTokens [] minTokens maxTokens overlap = Some []"
    by (simp add: chunkByTokens_def)
next
  let ?ws = "js_words text"
  assume le: "minTokens \<le> maxTokens" and ne: "?ws \<noteq> []"
    and short: "int (length ?ws) < minTokens"
  have lt: "0 < int (length ?ws)" using ne by simp
  have e: "min (int (length ?ws)) (0 + maxTokens) = int (length ?ws)"
    using le short by simp
  have sl: "js_slice ?ws 0 (int (length ?ws)) = ?ws"
    using js_slice_nat [of "length ?ws" ?ws 0] by simp
  have pn: "join '' '' ?ws \<noteq> []"
    by (rule join_nonempty [OF ne js_words_all_good])
  have "chunk_loop ?ws minTokens maxTokens overlap 0 [] = Some [join '' '' ?ws]"
    by (subst chunk_loop_step [OF js_words_all_good lt])
       (simp only: e sl Let_def, simp add: pn)
  with ne show "chunkByTokens text minTokens maxTokens overlap = Some [join '' '' ?ws]"
    by (simp add: chunkByTokens_def Let_def)
next
  show "js_words (join '' '' (js_words text)) = js_words text"
    by (rule js_words_join [OF js_words_all_good])
qed

text \<open>Two words, between 5 and 10 tokens asked for.\<close>

theorem chunk_empty_and_short_witness:
  "(5::int) \<le> 10 \<and> js_words ''a  b'' \<noteq> [] \<and> int (length (js_words ''a  b'')) < 5 \<and>
   chunkByTokens ''a  b'' 5 10 2 = Some [''a b''] \<and> js_words ''a b'' = js_words ''a  b''"
proof -
  have w: "js_words ''a  b'' = [''a'', ''b'']" by code_simp
  from chunk_empty_and_short [of 5 10 2 "''a  b''"] w
  show ?thesis by simp
qed

text \<open>
  Claim C10 as stated fails twice. A text of one space is not empty and has no word, so
  fewer than \<open>minTokens = 5\<close>, and gives no chunk at all; and with
  \<open>minTokens = 10 > maxTokens = 2\<close> a three-word text gives two chunks.
\<close>

theorem chunk_short_counterexample:
  "'' '' \<noteq> [] \<and> int (length (js_words '' '')) < 5 \<and> chunkByTokens '' '' 5 10 0 = Some [] \<and>
   int (length (js_words ''a b c'')) < 10 \<and>
   chunkByTokens ''a b c'' 10 2 0 = Some [''a b'', ''c'']"
  by code_simp

text \<open>
  Claim C4. The text \<open>a b\<close>, a paragraph break, \<open>c d e\<close> has its break inside the first
  window of \<open>maxTokens = 4\<close> words, and cutting there leaves two words, at least
  \<open>minTokens = 1\<close>. The claim asks for the first chunk \<open>a b\<close>; the code cuts at four
  words. The words come from splitting at whitespace, so the window text the loop
  searches holds no line feed and the search never succeeds (\<open>chunk_end_good\<close>).
\<close>

theorem chunk_paragraph_break_ignored:
  "chunkByTokens (''a b'' @ paragraph_break @ ''c d e'') 1 4 0 = Some [''a b c d'', ''e'']"
  by code_simp

section \<open>Properties of the embedding adapter\<close>

text \<open>The copy loop of \<open>fit\<close> after \<open>k\<close> rounds.\<close>

lemma fit_copy_loop:
  "k \<le> length v \<Longrightarrow> k \<le> n \<Longrightarrow>
   fold (\<lambda>i out. out[i := v ! i]) [0..<k] (replicate n z) = take k v @ replicate (n - k) z"
proof (induction k)
  case 0
  then show ?case by simp
next
  case (Suc k)
  then have ih: "fold (\<lambda>i out. out[i := v ! i]) [0..<k] (replicate n z) =
                   take k v @ replicate (n - k) z"
    by simp
  have len: "length (take k v) = k" using Suc.prems by simp
  have r: "replicate (n - k) z = z # replicate (n - Suc k) z"
    using Suc.prems by (cases "n - k") (auto simp: Suc_diff_Suc)
  have "(take k v @ replicate (n - k) z)[k := v ! k] =
          take k v @ (v ! k # replicate (n - Suc k) z)"
    using len by (simp add: list_update_append r)
  also have "\<dots> = take (Suc k) v @ replicate (n - Suc k) z"
    using Suc.prems by (simp add: take_Suc_conv_app_nth)
  finally show ?case
    using ih by simp
qed

text \<open>
  Claim C7. For every target dimension \<open>D\<close> (an array length: \<open>0 \<le> D < 2\<^sup>3\<^sup>2\<close>) and
  every vector \<open>v\<close>, \<open>fit\<close> returns a vector of length exactly \<open>D\<close>: the first \<open>D\<close>
  coordinates of a longer \<open>v\<close>, a shorter \<open>v\<close> followed by zeros, and \<open>v\<close> itself when its
  length is \<open>D\<close>.
\<close>

theorem fit_length_exact:
  assumes "0 \<le> D" and "D < 2 ^ 32"
  shows "\<exists>out. fit (Some D) v = Inr out \<and> int (length out) = D \<and>
           (int (length v) > D \<longrightarrow> out = take (nat D) v) \<and>
           (int (length v) < D \<longrightarrow> out = v @ replicate (nat D - length v) 0) \<and>
           (int (length v) = D \<longrightarrow> out = v)"
proof -
  consider (eq) "int (length v) = D" | (gt) "int (length v) > D" | (lt) "int (length v) < D"
    by linarith
  then show ?thesis
  proof cases
    case eq
    then show ?thesis by (simp add: fit_def)
  next
    case gt
    then have "js_slice v 0 D = take (nat D) v"
      using assms by (simp add: js_slice_def Let_def min_def)
    with gt assms show ?thesis by (simp add: fit_def)
  next
    case lt
    then have k: "length v \<le> nat D" using assms by simp
    have "fold (\<lambda>i out. out[i := v ! i]) [0..<length v] (replicate (nat D) 0) =
            take (length v) v @ replicate (nat D - length v) 0"
      by (rule fit_copy_loop [OF le_refl k])
    with lt assms k show ?thesis
      by (simp add: fit_def new_Array_fill_def)
  qed
qed

text \<open>Dimension 4: a vector of six, of two and of four coordinates.\<close>

theorem fit_length_exact_witness:
  "(0::int) \<le> 4 \<and> (4::int) < 2 ^ 32 \<and>
   fit (Some 4) [1, 2, 3, 4, 5, 6 :: int] = Inr [1, 2, 3, 4] \<and>
   fit (Some 4) [7, 8 :: int] = Inr [7, 8, 0, 0] \<and>
   fit (Some 4) [1, 2, 3, 4 :: int] = Inr [1, 2, 3, 4]"
proof -
  from fit_length_exact [of 4 "[1, 2, 3, 4, 5, 6 :: int]"]
  have a: "fit (Some 4) [1, 2, 3, 4, 5, 6 :: int] = Inr [1, 2, 3, 4]" by auto
  from fit_length_exact [of 4 "[7, 8 :: int]"]
  have b: "fit (Some 4) [7, 8 :: int] = Inr [7, 8, 0, 0]" by (auto simp: numeral_eq_Suc)
  from fit_length_exact [of 4 "[1, 2, 3, 4 :: int]"]
  have c: "fit (Some 4) [1, 2, 3, 4 :: int] = Inr [1, 2, 3, 4]" by auto
  from a b c show ?thesis by simp
qed

section \<open>Properties of the query service\<close>

text \<open>
  Claim C9. For both classifiers: when the completion call returned a response whose
  output, coerced to a string and stripped of code fences, does not parse, the
  classifier returns the negative intent, as a value and not as an error.
\<close>

theorem classifier_fails_soft:
  "(chatCompletion env (intentParams (chartPrompt lastUserText)) = Inr r \<longrightarrow>
    parseJSON env (cleaned_output r) = None \<longrightarrow>
    fst (detectChartIntentWithLLM env lastUserText calls) =
      Inr (JObj [(''wants_chart'', JBool False)])) \<and>
   (chatCompletion env (intentParams (alertPrompt lastUserText)) = Inr r' \<longrightarrow>
    parseJSON env (cleaned_output r') = None \<longrightarrow>
    fst (detectAlertIntentWithLLM env lastUserText calls) =
      Inr (JObj [(''wants_alert'', JBool False)]))"
  by (simp add: detectChartIntentWithLLM_def detectAlertIntentWithLLM_def Let_def)

text \<open>A fenced answer that is not JSON.\<close>

theorem classifier_fails_soft_witness:
  "chatCompletion (demo_env (fence @ ''json\<newline>sure!\<newline>'' @ fence) [])
     (intentParams (chartPrompt ''hello'')) =
     Inr (Message (CString (fence @ ''json\<newline>sure!\<newline>'' @ fence))) \<and>
   cleaned_output (Message (CString (fence @ ''json\<newline>sure!\<newline>'' @ fence))) = ''sure!'' \<and>
   parseJSON (demo_env (fence @ ''json\<newline>sure!\<newline>'' @ fence) []) ''sure!'' = None \<and>
   fst (detectChartIntentWithLLM (demo_env (fence @ ''json\<newline>sure!\<newline>'' @ fence) [])
          ''hello'' []) = Inr (JObj [(''wants_chart'', JBool False)]) \<and>
   fst (detectAlertIntentWithLLM (demo_env (fence @ ''json\<newline>sure!\<newline>'' @ fence) [])
          ''hello'' []) = Inr (JObj [(''wants_alert'', JBool False)])"
proof -
  let ?out = "fence @ ''json\<newline>sure!\<newline>'' @ fence"
  let ?env = "demo_env ?out []"
  have c: "cleaned_output (Message (CString ?out)) = ''sure!''"
    by code_simp
  have p: "parseJSON ?env ''sure!'' = None"
    by (simp add: demo_env_def demo_parse_def demo_intent_def)
  have r: "\<And>q. chatCompletion ?env q = Inr (Message (CString ?out))"
    by (simp add: demo_env_def)
  from classifier_fails_soft
         [of ?env "''hello''" "Message (CString ?out)" "[]" "Message (CString ?out)"]
       c p r
  show ?thesis by simp
qed

text \<open>The two previews of \<open>formatChartSummary\<close> as \<open>take\<close> and \<open>drop\<close>.\<close>

lemma js_slice_head: "js_slice xs 0 100 = take 100 xs"
  by (simp add: js_slice_def Let_def min_def)

lemma js_slice_tail: "js_slice xs (max 0 (int (length xs) - 100)) (int (length xs)) = drop (length xs - 100) xs"
  by (simp add: js_slice_def Let_def max_def min_def nat_diff_distrib')

text \<open>
  When \<open>maybeGetChartData\<close> returns a chart it has made two calls: the classification
  call to the completion service and a call that is not a completion call (the query).
\<close>

lemma maybeGetChartData_calls:
  assumes "maybeGetChartData env msgs calls = (Inr (Some chart), calls1)"
  shows "\<exists>u q. lastUser msgs = Some u \<and>
           calls1 = calls @ [ChatCompletion (intentParams (chartPrompt (content u))), q] \<and>
           \<not> is_completion q"
  using assms
  unfolding maybeGetChartData_def detectChartIntentWithLLM_def fetchSeriesFromPostgres_def Let_def
  by (auto split: option.splits sum.splits prod.splits if_splits json.splits)

text \<open>
  It returns a chart whenever the last user turn is classified with a truthy
  \<open>wants_chart\<close>, a non-empty string \<open>asset_urn\<close>, truthy \<open>from\<close> and \<open>to\<close>, and the pool
  exists; the series is what the query gives, empty when the query fails.
\<close>

lemma truthy_or_empty_id: "truthy x \<Longrightarrow> Some (truthy_or_empty x) = x"
  by (cases x) auto

lemma maybeGetChartData_positive:
  assumes "lastUser msgs = Some u"
    and "chatCompletion env (intentParams (chartPrompt (content u))) = Inr r"
    and "parseJSON env (cleaned_output r) = Some nlu"
    and "truthy (get_prop nlu ''wants_chart'')"
    and "get_prop nlu ''asset_urn'' = Some (JStr urn)" and "urn \<noteq> []"
    and "truthy (get_prop nlu ''from'')" and "truthy (get_prop nlu ''to'')"
    and "pgPool env = Some query"
  shows "\<exists>chart calls1 attributeId.
           maybeGetChartData env msgs calls = (Inr (Some chart), calls1) \<and>
           assetUrn (meta chart) = urn \<and>
           series chart =
             (case query urn attributeId (truthy_or_empty (get_prop nlu ''from''))
                     (truthy_or_empty (get_prop nlu ''to'')) of
                Inl e \<Rightarrow> [] | Inr rows \<Rightarrow> rows)"
proof -
  have nn: "nlu \<noteq> JNull" using assms(5) by (auto simp: get_prop_def)
  have t: "truthy (Some (truthy_or_empty (get_prop nlu ''from'')))"
          "truthy (Some (truthy_or_empty (get_prop nlu ''to'')))"
    using assms(7,8) by (simp_all add: truthy_or_empty_id)
  show ?thesis
    using assms nn t
    by (simp add: maybeGetChartData_def detectChartIntentWithLLM_def
          fetchSeriesFromPostgres_def Let_def) (rule exI, rule refl)
qed

text \<open>
  Claim C1, amended. Whenever \<open>maybeGetChartData\<close> returns a chart (the chart intent is
  positive, the asset reference is a string, \<open>from\<close> and \<open>to\<close> are resolved, the pool
  exists and the fetch was made, see \<open>maybeGetChartData_positive\<close>) and its series is
  not empty, \<open>handleQuery\<close> returns the
  chart reply: the summary ends with a line holding the point count, followed by the
  minimum and maximum of the finite values when there is one and by nothing when there
  is none; the previews are the first and the last 100 points at most; and the calls
  made are the classification call to the completion service and one call that is not
  a completion call.
\<close>

theorem chart_path_summary:
  assumes "maybeGetChartData env msgs calls = (Inr (Some chart), calls1)"
    and "series chart \<noteq> []"
  shows "handleQuery env msgs vectorStoreIds calls =
           (Inr (ChartReply (''Here's the live chart summary:\<newline>\<newline>'' @
                              summary (formatChartSummary env chart))
                   chart (take 100 (series chart))
                   (drop (length (series chart) - 100) (series chart))), calls1) \<and>
         (\<exists>line1. summary (formatChartSummary env chart) =
            line1 @ ''\<newline>Points: '' @ decimal (length (series chart)) @
            (let vals = map finite_value (filter isFinite (map pt_v (series chart)))
             in if vals = [] then []
                else '', Min: '' @ showNum env (Min (set vals)) @
                     '', Max: '' @ showNum env (Max (set vals)))) \<and>
         (\<exists>u q. lastUser msgs = Some u \<and>
            calls1 = calls @ [ChatCompletion (intentParams (chartPrompt (content u))), q] \<and>
            \<not> is_completion q)"
proof (intro conjI)
  from maybeGetChartData_calls [OF assms(1)] obtain u where "lastUser msgs = Some u" by blast
  then have ne: "msgs \<noteq> []" by (auto simp: lastUser_def)
  show "handleQuery env msgs vectorStoreIds calls =
           (Inr (ChartReply (''Here's the live chart summary:\<newline>\<newline>'' @
                              summary (formatChartSummary env chart))
                   chart (take 100 (series chart))
                   (drop (length (series chart) - 100) (series chart))), calls1)"
    using ne assms(1)
    by (simp add: handleQuery_def getChartSummaryIfAny_def array_truthy_def Let_def
          formatChartSummary_def js_slice_head js_slice_tail)
next
  show "\<exists>line1. summary (formatChartSummary env chart) =
            line1 @ ''\<newline>Points: '' @ decimal (length (series chart)) @
            (let vals = map finite_value (filter isFinite (map pt_v (series chart)))
             in if vals = [] then []
                else '', Min: '' @ showNum env (Min (set vals)) @
                     '', Max: '' @ showNum env (Max (set vals)))"
    by (simp add: formatChartSummary_def Let_def)
next
  show "\<exists>u q. lastUser msgs = Some u \<and>
            calls1 = calls @ [ChatCompletion (intentParams (chartPrompt (content u))), q] \<and>
            \<not> is_completion q"
    by (rule maybeGetChartData_calls [OF assms(1)])
qed

text \<open>A series of two finite values.\<close>

theorem chart_path_summary_witness:
  "maybeGetChartData (demo_env fenced_intent two_points) demo_question [] =
     (Inr (Some (demo_chart two_points)), demo_calls) \<and>
   series (demo_chart two_points) \<noteq> [] \<and>
   handleQuery (demo_env fenced_intent two_points) demo_question [] [] =
     (Inr (ChartReply
        ''Here's the live chart summary:\<newline>\<newline>Live data (temperature) for urn:iff:asset:42\<newline>Points: 2, Min: 3, Max: 7''
        (demo_chart two_points) two_points two_points), demo_calls)"
proof -
  have h1: "maybeGetChartData (demo_env fenced_intent two_points) demo_question [] =
              (Inr (Some (demo_chart two_points)), demo_calls)"
    by code_simp
  have h2: "series (demo_chart two_points) \<noteq> []"
    by (simp add: demo_chart_def two_points_def)
  have s: "summary (formatChartSummary (demo_env fenced_intent two_points) (demo_chart two_points)) =
             ''Live data (temperature) for urn:iff:asset:42\<newline>Points: 2, Min: 3, Max: 7''"
    by code_simp
  have t: "take 100 (series (demo_chart two_points)) = two_points"
          "drop (length (series (demo_chart two_points)) - 100) (series (demo_chart two_points)) = two_points"
    by (simp_all add: demo_chart_def two_points_def)
  from chart_path_summary [OF h1 h2, of "[]"] h1 h2 s t
  show ?thesis by simp
qed

text \<open>
  Claim C1 as stated fails on a series whose only value is \<open>NaN\<close>: the summary has the
  point count and neither minimum nor maximum, and the calls made start with a
  completion-service call, the classification.
\<close>

theorem chart_path_counterexample:
  "handleQuery (demo_env fenced_intent [\<lparr>pt_t = ''2025-08-13T10:00:00.000Z'', pt_v = NaN\<rparr>])
     demo_question [] [] =
     (Inr (ChartReply
        ''Here's the live chart summary:\<newline>\<newline>Live data (temperature) for urn:iff:asset:42\<newline>Points: 1''
        (demo_chart [\<lparr>pt_t = ''2025-08-13T10:00:00.000Z'', pt_v = NaN\<rparr>])
        [\<lparr>pt_t = ''2025-08-13T10:00:00.000Z'', pt_v = NaN\<rparr>]
        [\<lparr>pt_t = ''2025-08-13T10:00:00.000Z'', pt_v = NaN\<rparr>]),
      [ChatCompletion (intentParams (chartPrompt ''plot temperature of urn:iff:asset:42'')),
       PgQuery ''urn:iff:asset:42'' ''https://industry-fusion.org/base/v0.1/temperature''
         (JStr ''2025-08-13'') (JStr ''2025-08-14'')])"
  by code_simp

text \<open>
  The test \<open>chart?.series\<close> is the truthiness of an array, so the branch for the empty
  series is never taken.
\<close>

lemma no_data_reply_unreachable:
  "fst (getChartSummaryIfAny env msgs calls) \<noteq> Some (NoChartData r c)"
  by (simp add: getChartSummaryIfAny_def array_truthy_def Let_def
        split: prod.splits sum.splits option.splits)

text \<open>
  Claim C2. The chart intent resolves and the fetch returns the empty series; the claim
  asks for the reply that no live data is available. The code returns the chart
  summary, with \<open>Points: 0\<close>.
\<close>

theorem empty_series_gets_chart_summary:
  "handleQuery (demo_env fenced_intent []) demo_question [] [] =
     (Inr (ChartReply
        ''Here's the live chart summary:\<newline>\<newline>Live data (temperature) for urn:iff:asset:42\<newline>Points: 0''
        (demo_chart []) [] []), demo_calls)"
  by code_simp

text \<open>\<open>messages.slice(-MAX_MESSAGES)\<close> keeps the last ten turns.\<close>

lemma js_slice_recent: "js_slice xs (- MAX_MESSAGES) (int (length xs)) = drop (length xs - 10) xs"
  by (simp add: js_slice_def Let_def MAX_MESSAGES_def max_def nat_diff_distrib')

text \<open>
  Claim C6, amended. For every request that reaches the retrieval step and gets a
  context, the final completion call sends exactly one message, of role \<open>user\<close>. Its
  content is the lines \<open>role: content\<close>, contents trimmed and turns with blank content
  left out, of the system turn (the prompt text, the selected stores and the retrieval
  context) followed by the most recent turns, at most ten, in their order and whatever
  their role.
\<close>

theorem final_call_is_flattened:
  assumes "msgs \<noteq> []"
    and "getChartSummaryIfAny env msgs calls = (None, calls1)"
    and "getAlertsDataIfAny env msgs calls1 = (None, calls2)"
    and "milvusSearch env msgs calls2 = (Inr contextText, calls3)"
  shows "\<exists>p. snd (handleQuery env msgs vectorStoreIds calls) = calls3 @ [ChatCompletion p] \<and>
           messages p =
             [\<lparr>role = User,
               content = join ''\<newline>''
                 (map (\<lambda>m. role_name (role m) @ '': '' @ trim (content m))
                    (filter (\<lambda>m. trim (content m) \<noteq> [])
                       (\<lparr>role = System,
                         content = promptText env @ join '', '' vectorStoreIds @
                           ''\<newline>\<newline>Context for the question:\<newline>\<newline>'' @ contextText\<rparr> #
                        drop (length msgs - 10) msgs)))\<rparr>] \<and>
           length (drop (length msgs - 10) msgs) = min 10 (length msgs)"
proof -
  let ?p = "finalParams env msgs vectorStoreIds contextText"
  have "snd (handleQuery env msgs vectorStoreIds calls) = calls3 @ [ChatCompletion ?p]"
    using assms
    by (simp add: handleQuery_def Let_def split: sum.splits)
  moreover have "messages ?p =
             [\<lparr>role = User,
               content = join ''\<newline>''
                 (map (\<lambda>m. role_name (role m) @ '': '' @ trim (content m))
                    (filter (\<lambda>m. trim (content m) \<noteq> [])
                       (\<lparr>role = System,
                         content = promptText env @ join '', '' vectorStoreIds @
                           ''\<newline>\<newline>Context for the question:\<newline>\<newline>'' @ contextText\<rparr> #
                        drop (length msgs - 10) msgs)))\<rparr>]"
    by (simp add: finalParams_def flattenChatHistoryToString_def Let_def js_slice_recent)
  moreover have "length (drop (length msgs - 10) msgs) = min 10 (length msgs)"
    by simp
  ultimately show ?thesis by blast
qed


text \<open>Fifteen turns; the classifiers find no intent.\<close>

theorem final_call_is_flattened_witness:
  "demo_turns \<noteq> [] \<and>
   getChartSummaryIfAny (demo_env ''hello'' []) demo_turns [] = (None, demo_calls1) \<and>
   getAlertsDataIfAny (demo_env ''hello'' []) demo_turns demo_calls1 = (None, demo_calls2) \<and>
   milvusSearch (demo_env ''hello'' []) demo_turns demo_calls2 =
     (Inr ''[S1] manual page'', demo_calls3) \<and>
   (\<exists>p. snd (handleQuery (demo_env ''hello'' []) demo_turns [''store''] []) =
          demo_calls3 @ [ChatCompletion p] \<and>
        messages p =
          [\<lparr>role = User,
            content = ''system: You are XANA. Selected: store\<newline>\<newline>Context for the question:\<newline>\<newline>[S1] manual page\<newline>assistant: m6\<newline>user: m7\<newline>assistant: m8\<newline>user: m9\<newline>assistant: m10\<newline>user: m11\<newline>assistant: m12\<newline>user: m13\<newline>assistant: m14\<newline>user: m15''\<rparr>])"
proof -
  let ?env = "demo_env ''hello'' []"
  have h0: "demo_turns \<noteq> []" by code_simp
  have h1: "getChartSummaryIfAny ?env demo_turns [] = (None, demo_calls1)" by code_simp
  have h2: "getAlertsDataIfAny ?env demo_turns demo_calls1 = (None, demo_calls2)" by code_simp
  have h3: "milvusSearch ?env demo_turns demo_calls2 = (Inr ''[S1] manual page'', demo_calls3)"
    by code_simp
  have c: "join ''\<newline>''
             (map (\<lambda>m. role_name (role m) @ '': '' @ trim (content m))
                (filter (\<lambda>m. trim (content m) \<noteq> [])
                   (\<lparr>role = System,
                     content = promptText ?env @ join '', '' [''store''] @
                       ''\<newline>\<newline>Context for the question:\<newline>\<newline>'' @ ''[S1] manual page''\<rparr> #
                    drop (length demo_turns - 10) demo_turns))) =
           ''system: You are XANA. Selected: store\<newline>\<newline>Context for the question:\<newline>\<newline>[S1] manual page\<newline>assistant: m6\<newline>user: m7\<newline>assistant: m8\<newline>user: m9\<newline>assistant: m10\<newline>user: m11\<newline>assistant: m12\<newline>user: m13\<newline>assistant: m14\<newline>user: m15''"
    by code_simp
  from final_call_is_flattened [OF h0 h1 h2 h3, of "[''store'']"] c
  have "\<exists>p. snd (handleQuery ?env demo_turns [''store''] []) = demo_calls3 @ [ChatCompletion p] \<and>
          messages p =
            [\<lparr>role = User,
              content = ''system: You are XANA. Selected: store\<newline>\<newline>Context for the question:\<newline>\<newline>[S1] manual page\<newline>assistant: m6\<newline>user: m7\<newline>assistant: m8\<newline>user: m9\<newline>assistant: m10\<newline>user: m11\<newline>assistant: m12\<newline>user: m13\<newline>assistant: m14\<newline>user: m15''\<rparr>]"
    by (simp only:) blast
  with h0 h1 h2 h3 show ?thesis by blast
qed

text \<open>
  Claim C6 as stated fails: with fifteen prior turns the message list sent is not a
  system turn followed by ten turns, it is one user message.
\<close>

theorem final_call_is_flattened_counterexample:
  "length demo_turns = 15 \<and>
   sent_messages (last (snd (handleQuery (demo_env ''hello'' []) demo_turns [''store''] []))) =
     [\<lparr>role = User,
       content = ''system: You are XANA. Selected: store\<newline>\<newline>Context for the question:\<newline>\<newline>[S1] manual page\<newline>assistant: m6\<newline>user: m7\<newline>assistant: m8\<newline>user: m9\<newline>assistant: m10\<newline>user: m11\<newline>assistant: m12\<newline>user: m13\<newline>assistant: m14\<newline>user: m15''\<rparr>]"
  by code_simp

section \<open>Properties of the ingestion pipeline\<close>

lemma fingerprints_append: "fingerprints (xs @ ys) = fingerprints xs @ fingerprints ys"
  by (simp add: fingerprints_def map_filter_def)

lemma fingerprints_snoc_Some:
  "fingerprint d = Some h \<Longrightarrow> fingerprints (xs @ [d]) = fingerprints xs @ [h]"
  by (simp add: fingerprints_def map_filter_def)

lemma fingerprints_snoc_None:
  "fingerprint d = None \<Longrightarrow> fingerprints (xs @ [d]) = fingerprints xs"
  by (simp add: fingerprints_def map_filter_def)

lemma rights_append: "rights (xs @ ys) = rights xs @ rights ys"
  by (induction xs rule: rights.induct) auto

lemma promise_all_rights: "promise_all ps = Inr ds \<Longrightarrow> ds = rights ps"
  by (induction ps arbitrary: ds rule: promise_all.induct) (auto split: sum.splits)

lemma embedChunk_labels: "embedChunk env nm body lbls = Inr d \<Longrightarrow> labels d = lbls"
  by (auto simp: embedChunk_def split: sum.splits list.splits)

lemma meta_labels_other:
  "k \<notin> {''machine_id'', ''asset_name'', ''dt_version'', ''ts_start'', ''ts_end''} \<Longrightarrow>
   map_of (meta_labels m) k = None"
  by (simp add: meta_labels_def split: option.splits)

lemma fresh_inv_push:
  "fresh_inv seen0 seen F \<Longrightarrow> h \<notin> seen \<Longrightarrow> fresh_inv seen0 (insert h seen) (F @ [h])"
  by (auto simp: fresh_inv_def)

lemma fresh_inv_seen:
  "fresh_inv seen0 seen F \<Longrightarrow> fresh_inv seen0 (insert h seen) F"
  by (auto simp: fresh_inv_def)

lemma jsonld_child_made:
  assumes "embedChunk env nm ch
             ([(''sha256'', sha256 env ch), (''source'', fl), (''kind'', ''jsonld''),
               (''chunk'', ix), (''parent_id'', pid), (''text'', ch), (''entityId'', ei),
               (''entityType'', et)] @ meta_labels m) = Inr d"
  shows "fingerprint d = Some (sha256 env ch) \<and> fingerprint_made env d"
  using embedChunk_labels [OF assms]
  by (simp add: fingerprint_def fingerprint_made_def)

lemma jsonld_parent_made:
  assumes "embedChunk env nm body
             ([(''kind'', ''parent''), (''source'', fl), (''entityId'', ei),
               (''entityType'', et), (''parent_id'', pid)] @ meta_labels m) = Inr d"
  shows "fingerprint d = None \<and> fingerprint_made env d"
  using embedChunk_labels [OF assms]
  by (simp add: fingerprint_def fingerprint_made_def meta_labels_other)

lemma pdf_child_made:
  assumes "embedChunk env nm ch
             [(''sha256'', sha256 env (h @ '':'' @ ch)), (''pdfFileHash'', h),
              (''sourceUrl'', u), (''filename'', fn), (''pageCount'', pc), (''kind'', ''pdf-text''),
              (''chunk'', ix), (''parent_id'', pid), (''text'', ch), (''section_path'', sp)] = Inr d"
  shows "fingerprint d = Some (sha256 env (h @ '':'' @ ch)) \<and> fingerprint_made env d"
  using embedChunk_labels [OF assms]
  by (simp add: fingerprint_def fingerprint_made_def)

lemma pdf_parent_made:
  assumes "embedChunk env nm body
             [(''kind'', ''parent''), (''parent_id'', pid), (''pdfFileHash'', h),
              (''sourceUrl'', u), (''filename'', fn), (''pageCount'', pc)] = Inr d"
  shows "fingerprint d = None \<and> fingerprint_made env d"
  using embedChunk_labels [OF assms]
  by (simp add: fingerprint_def fingerprint_made_def)

lemma json_inv_child:
  assumes "json_inv env seen0 acc" and "h \<notin> seenHashes (state acc)"
    and "\<And>d. r = Inr d \<Longrightarrow> fingerprint d = Some h \<and> fingerprint_made env d"
  shows "json_inv env seen0
           (acc\<lparr>state := (state acc)\<lparr>seenHashes := insert h (seenHashes (state acc))\<rparr>,
                childDocs := childDocs acc @ [r]\<rparr>)"
proof (cases r)
  case (Inl e)
  then show ?thesis
    using assms(1) by (simp add: json_inv_def rights_append fresh_inv_seen)
next
  case (Inr d)
  with assms(3) have d: "fingerprint d = Some h" "fingerprint_made env d" by auto
  show ?thesis
    using assms(1,2) d Inr
    by (simp add: json_inv_def rights_append fingerprints_snoc_Some fresh_inv_push)
qed

lemma json_inv_parent:
  assumes "json_inv env seen0 acc"
    and "\<And>d. r = Inr d \<Longrightarrow> fingerprint d = None \<and> fingerprint_made env d"
  shows "json_inv env seen0 (acc\<lparr>parentDocs := parentDocs acc @ [r]\<rparr>)"
  using assms by (cases r) (auto simp: json_inv_def rights_append)

lemma json_inv_urls: "json_inv env seen0 (acc\<lparr>pdfUrls := us\<rparr>) = json_inv env seen0 acc"
  by (simp add: json_inv_def)

lemma jsonld_chunks_inv:
  "json_inv env seen0 acc \<Longrightarrow> json_inv env seen0 (jsonld_chunks env fl bn pid ent ics acc)"
proof (induction env fl bn pid ent ics acc rule: jsonld_chunks.induct)
  case (1 env fl bn pid ent acc)
  then show ?case by simp
next
  case (2 env fl bn pid ent idx ch rest acc)
  show ?case
  proof (cases "sha256 env ch \<in> seenHashes (state acc)")
    case True
    with 2 show ?thesis by (simp add: Let_def)
  next
    case False
    let ?r = "embedChunk env (bn @ ''#'' @ decimal idx) ch
                ([(''sha256'', sha256 env ch), (''source'', fl), (''kind'', ''jsonld''),
                  (''chunk'', decimal idx), (''parent_id'', pid), (''text'', ch),
                  (''entityId'', entityId ent), (''entityType'', entityType ent)] @
                 meta_labels (machineMeta ent))"
    have "json_inv env seen0
           (acc\<lparr>state := (state acc)\<lparr>seenHashes := insert (sha256 env ch) (seenHashes (state acc))\<rparr>,
                childDocs := childDocs acc @ [?r]\<rparr>)"
      by (rule json_inv_child [OF "2.prems" False]) (rule jsonld_child_made)
    from "2.IH"(2) [OF refl False this] False show ?thesis
      by (simp add: Let_def)
  qed
qed

lemma ingest_entity_inv:
  assumes "json_inv env seen0 acc" and "ingest_entity env fl bn ent acc = Some acc1"
  shows "json_inv env seen0 acc1"
proof (cases "factParagraphs ent = []")
  case True
  with assms show ?thesis by (simp add: ingest_entity_def)
next
  case False
  let ?pid = "sha256 env (bn @ '':parent'')"
  let ?joined = "join ''\<newline>'' (factParagraphs ent)"
  let ?r = "embedChunk env (bn @ ''#parent'') ?joined
              ([(''kind'', ''parent''), (''source'', fl), (''entityId'', entityId ent),
                (''entityType'', entityType ent), (''parent_id'', ?pid)] @
               meta_labels (machineMeta ent))"
  have p: "json_inv env seen0 (acc\<lparr>parentDocs := parentDocs acc @ [?r]\<rparr>)"
    by (rule json_inv_parent [OF assms(1)]) (rule jsonld_parent_made)
  from assms(2) False obtain chunks where
    "acc1 = jsonld_chunks env fl bn ?pid ent (enumerate 0 chunks)
              (acc\<lparr>parentDocs := parentDocs acc @ [?r]\<rparr>)"
    by (auto simp: ingest_entity_def Let_def split: option.splits)
  with jsonld_chunks_inv [OF p] show ?thesis by simp
qed

lemma ingest_entities_inv:
  "json_inv env seen0 acc \<Longrightarrow> ingest_entities env fl bn many es acc = Some (Inr acc1) \<Longrightarrow>
   json_inv env seen0 acc1"
proof (induction env fl bn many es acc rule: ingest_entities.induct)
  case (3 env fl bn many eidx ent rest acc)
  from "3.prems"(2) obtain acc' where
    a: "ingest_entity env fl (bn @ (if many then ''@'' @ decimal eidx else [])) ent acc = Some acc'"
    and b: "ingest_entities env fl bn many rest acc' = Some (Inr acc1)"
    by (auto split: option.splits)
  from ingest_entity_inv [OF "3.prems"(1) a] have "json_inv env seen0 acc'" .
  from "3.IH" [OF a this b] show ?case .
qed auto

lemma ingest_files_inv:
  "json_inv env seen0 acc \<Longrightarrow> ingest_files env fs acc = Some (Inr acc1) \<Longrightarrow>
   json_inv env seen0 acc1"
proof (induction env fs acc rule: ingest_files.induct)
  case (1 env acc)
  then show ?case by simp
next
  case (2 env f fs acc)
  show ?case
  proof (cases "parsed f")
    case None
    with 2 show ?thesis by simp
  next
    case (Some p)
    obtain entities urls where p: "p = (entities, urls)" by (cases p)
    let ?acc = "acc\<lparr>pdfUrls := fold (\<lambda>u us. set_add us u) urls (pdfUrls acc)\<rparr>"
    from "2.prems"(2) Some p obtain acc' where
      a: "ingest_entities env (relFile f) (baseName f) (1 < length entities)
            (enumerate 0 entities) ?acc = Some (Inr acc')"
      and b: "ingest_files env fs acc' = Some (Inr acc1)"
      by (auto split: option.splits sum.splits)
    have "json_inv env seen0 ?acc" using "2.prems"(1) by (simp add: json_inv_urls)
    from ingest_entities_inv [OF this a] have "json_inv env seen0 acc'" .
    from "2.IH"(2) [OF Some p [symmetric] a refl this b] show ?thesis .
  qed
qed

lemma pdf_inv_pdf_seen:
  "pdf_inv env seen0 F0 (st\<lparr>seenPdfFileHashes := X\<rparr>, out) = pdf_inv env seen0 F0 (st, out)"
  by (simp add: pdf_inv_def)

lemma pdf_inv_seen:
  "pdf_inv env seen0 F0 (st, out) \<Longrightarrow>
   pdf_inv env seen0 F0 (st\<lparr>seenHashes := insert h (seenHashes st)\<rparr>, out)"
  by (simp add: pdf_inv_def fresh_inv_seen)

lemma pdf_inv_child:
  assumes "pdf_inv env seen0 F0 (st, out)" and "h \<notin> seenHashes st"
    and "fingerprint d = Some h" and "fingerprint_made env d"
  shows "pdf_inv env seen0 F0 (st\<lparr>seenHashes := insert h (seenHashes st)\<rparr>, out @ [d])"
proof -
  have "fresh_inv seen0 (insert h (seenHashes st)) ((F0 @ fingerprints out) @ [h])"
    using assms(1,2) by (intro fresh_inv_push) (simp_all add: pdf_inv_def)
  with assms show ?thesis
    by (simp add: pdf_inv_def fingerprints_snoc_Some)
qed

lemma pdf_inv_parent:
  assumes "pdf_inv env seen0 F0 (st, out)" and "fingerprint d = None" and "fingerprint_made env d"
  shows "pdf_inv env seen0 F0 (st, out @ [d])"
  using assms by (simp add: pdf_inv_def fingerprints_snoc_None)

lemma pdf_chunks_inv:
  "pdf_inv env seen0 F0 acc \<Longrightarrow> pdf_inv env seen0 F0 (pdf_chunks env ctx chs idx acc)"
proof (induction env ctx chs idx acc rule: pdf_chunks.induct)
  case (1 env ctx idx st out)
  then show ?case by simp
next
  case (2 env ctx ch rest idx st out)
  let ?h = "sha256 env (pdfFileHash ctx @ '':'' @ ch)"
  let ?st1 = "st\<lparr>seenHashes := insert ?h (seenHashes st)\<rparr>"
  let ?sp = "pickSectionForSpan (paragraphs ctx) ch"
  let ?r = "embedChunk env (fileName ctx @ ''#'' @ decimal idx) ch
              [(''sha256'', ?h), (''pdfFileHash'', pdfFileHash ctx),
               (''sourceUrl'', sourceUrl ctx), (''filename'', fileName ctx),
               (''pageCount'', pageCount ctx), (''kind'', ''pdf-text''),
               (''chunk'', decimal idx), (''parent_id'', pdfParentId ctx),
               (''text'', ch), (''section_path'', ?sp)]"
  show ?case
  proof (cases "?h \<in> seenHashes st")
    case True
    with 2 show ?thesis by (simp add: Let_def)
  next
    case False
    show ?thesis
    proof (cases ?r)
      case (Inl e)
      with False pdf_inv_seen [OF "2.prems", of ?h] show ?thesis
        by (simp add: Let_def)
    next
      case (Inr d)
      from pdf_child_made [OF Inr] have d: "fingerprint d = Some ?h" "fingerprint_made env d"
        by simp_all
      have "pdf_inv env seen0 F0 (?st1, out @ [d])"
        by (rule pdf_inv_child [OF "2.prems" False d])
      from "2.IH"(2) [OF refl False refl refl Inr this] False Inr show ?thesis
        by (simp add: Let_def)
    qed
  qed
qed

lemma pdf_worker_inv:
  assumes "pdf_inv env seen0 F0 acc" and "pdf_worker env url acc = Some acc1"
  shows "pdf_inv env seen0 F0 acc1"
proof -
  obtain st out where acc: "acc = (st, out)" by (cases acc)
  note inv = assms(1) [unfolded acc]
  show ?thesis
  proof (cases "httpGet env url")
    case (Inl e)
    with assms acc show ?thesis by (simp add: pdf_worker_def)
  next
    case (Inr buf)
    let ?h = "sha256 env buf"
    let ?st1 = "st\<lparr>seenPdfFileHashes := insert ?h (seenPdfFileHashes st)\<rparr>"
    have inv1: "pdf_inv env seen0 F0 (?st1, out)"
      using inv by (simp add: pdf_inv_pdf_seen)
    show ?thesis
    proof (cases "?h \<in> seenPdfFileHashes st")
      case True
      with assms acc Inr show ?thesis by (simp add: pdf_worker_def Let_def)
    next
      case False
      show ?thesis
      proof (cases "pdfParse env buf")
        case (Inl e)
        with assms(2) acc Inr False inv1 show ?thesis
          by (simp add: pdf_worker_def Let_def)
      next
        case parse: (Inr p)
        obtain body pages where p: "p = (body, pages)" by (cases p)
        let ?full = "trim (filter (\<lambda>c. c \<noteq> CHR 0x0D) body)"
        show ?thesis
        proof (cases "?full = []")
          case True
          with assms(2) acc Inr False parse p inv1 show ?thesis
            by (simp add: pdf_worker_def Let_def)
        next
          case ne: False
          let ?fn = "url_file_name url"
          let ?pid = "sha256 env (?fn @ '':parent:'' @ ?h)"
          let ?ptext = "if length ?full > 12000 then js_slice ?full 0 12000 else ?full"
          let ?r = "embedChunk env (?fn @ ''#parent'') ?ptext
                      [(''kind'', ''parent''), (''parent_id'', ?pid), (''pdfFileHash'', ?h),
                       (''sourceUrl'', url), (''filename'', ?fn), (''pageCount'', pages)]"
          show ?thesis
          proof (cases ?r)
            case (Inl e)
            with assms(2) acc Inr False parse p ne inv1 show ?thesis
              by (simp add: pdf_worker_def Let_def)
          next
            case par: (Inr parent)
            from pdf_parent_made [OF par]
            have "pdf_inv env seen0 F0 (?st1, out @ [parent])"
              by (intro pdf_inv_parent [OF inv1]) simp_all
            from pdf_chunks_inv [OF this]
            have c: "\<And>ctx chs. pdf_inv env seen0 F0 (pdf_chunks env ctx chs 0 (?st1, out @ [parent]))" .
            from assms(2) acc Inr False parse p ne par obtain ctx chs where
              "acc1 = pdf_chunks env ctx chs 0 (?st1, out @ [parent])"
              by (auto simp: pdf_worker_def Let_def split: option.splits)
            with c show ?thesis by simp
          qed
        qed
      qed
    qed
  qed
qed

lemma processPdfs_inv:
  "pdf_inv env seen0 F0 acc \<Longrightarrow> processPdfs env urls acc = Some acc1 \<Longrightarrow>
   pdf_inv env seen0 F0 acc1"
proof (induction env urls acc rule: processPdfs.induct)
  case (1 env acc)
  then show ?case by simp
next
  case (2 env url urls acc)
  from "2.prems"(2) obtain acc' where
    a: "pdf_worker env url acc = Some acc'" and b: "processPdfs env urls acc' = Some acc1"
    by (auto split: option.splits)
  from pdf_worker_inv [OF "2.prems"(1) a] have "pdf_inv env seen0 F0 acc'" .
  from "2.IH" [OF a this b] show ?case .
qed

lemma fingerprints_none: "\<forall>d\<in>set ds. fingerprint d = None \<Longrightarrow> fingerprints ds = []"
  by (induction ds) (auto simp: fingerprints_def map_filter_def)

lemma fingerprints_filter_set: "set (fingerprints (filter P ds)) \<subseteq> set (fingerprints ds)"
  by (auto simp: fingerprints_def map_filter_def)

lemma fingerprints_filter_distinct:
  "distinct (fingerprints ds) \<Longrightarrow> distinct (fingerprints (filter P ds))"
proof (induction ds)
  case Nil
  then show ?case by (simp add: fingerprints_def map_filter_def)
next
  case (Cons d ds)
  have tl: "distinct (fingerprints ds)"
    using Cons.prems by (cases "fingerprint d") (auto simp: fingerprints_def map_filter_def)
  show ?case
  proof (cases "P d")
    case False
    with Cons.IH [OF tl] show ?thesis by simp
  next
    case True
    show ?thesis
    proof (cases "fingerprint d")
      case None
      with True Cons.IH [OF tl] show ?thesis by (simp add: fingerprints_def map_filter_def)
    next
      case (Some h)
      with Cons.prems have "h \<notin> set (fingerprints ds)"
        by (simp add: fingerprints_def map_filter_def)
      with fingerprints_filter_set [of P ds] have "h \<notin> set (fingerprints (filter P ds))" by blast
      with True Some Cons.IH [OF tl] show ?thesis
        by (simp add: fingerprints_def map_filter_def)
    qed
  qed
qed

text \<open>
  Claim C8, amended. In a run that returns, the uploaded records that have a fingerprint
  have pairwise distinct fingerprints, every one of them was added to the seen-hash set
  by this run (none was in the set before), and the fingerprint of a record is the hash
  of its text for a JSON-LD chunk and the hash of the PDF's file hash, a colon and its
  text for a PDF chunk. The seen-hash set is one set for JSON-LD and PDF sources.
\<close>

theorem upload_once_per_fingerprint:
  assumes "ingestFolder env targets st0 = Some (Inr (uploaded, st1))"
  shows "distinct (fingerprints uploaded) \<and>
         set (fingerprints uploaded) \<subseteq> seenHashes st1 - seenHashes st0 \<and>
         (\<forall>d\<in>set uploaded. fingerprint_made env d)"
proof -
  let ?init = "\<lparr>state = st0, parentDocs = [], childDocs = [], pdfUrls = []\<rparr> :: 'a JsonAcc"
  let ?P = "\<lambda>d :: 'a VectorDoc. Some (int (length (vector d))) = embedDim env"
  from assms obtain acc jp jc pd where
    files: "ingest_files env targets ?init = Some (Inr acc)"
    and jp: "promise_all (parentDocs acc) = Inr jp"
    and jc: "promise_all (childDocs acc) = Inr jc"
    and pdfs: "processPdfs env (pdfUrls acc) (state acc, []) = Some (st1, pd)"
    and up: "uploaded = filter ?P (jp @ jc @ pd)"
    by (auto simp: ingestFolder_def Let_def split: option.splits sum.splits prod.splits if_splits)
  have "json_inv env (seenHashes st0) ?init"
    by (simp add: json_inv_def fresh_inv_def fingerprints_def map_filter_def)
  from ingest_files_inv [OF this files] have ji: "json_inv env (seenHashes st0) acc" .
  have jp': "jp = rights (parentDocs acc)" and jc': "jc = rights (childDocs acc)"
    using jp jc by (simp_all add: promise_all_rights)
  have "pdf_inv env (seenHashes st0) (fingerprints jc) (state acc, [])"
    using ji by (simp add: json_inv_def pdf_inv_def jc' fingerprints_def map_filter_def)
  from processPdfs_inv [OF this pdfs]
  have pi: "pdf_inv env (seenHashes st0) (fingerprints jc) (st1, pd)" .
  have fjp: "fingerprints jp = []"
    using ji by (intro fingerprints_none) (simp add: json_inv_def jp')
  have all: "fingerprints (jp @ jc @ pd) = fingerprints jc @ fingerprints pd"
    by (simp add: fingerprints_append fjp)
  have fr: "fresh_inv (seenHashes st0) (seenHashes st1) (fingerprints (jp @ jc @ pd))"
    using pi by (simp add: pdf_inv_def all)
  have "distinct (fingerprints uploaded)"
    unfolding up using fr by (intro fingerprints_filter_distinct) (simp add: fresh_inv_def)
  moreover have "set (fingerprints uploaded) \<subseteq> seenHashes st1 - seenHashes st0"
    unfolding up using fr fingerprints_filter_set [of ?P "jp @ jc @ pd"]
    by (auto simp: fresh_inv_def)
  moreover have "\<forall>d\<in>set uploaded. fingerprint_made env d"
    unfolding up using ji pi by (auto simp: json_inv_def pdf_inv_def jp' jc')
  ultimately show ?thesis by blast
qed

text \<open>Two entities with the same facts: one chunk record is uploaded.\<close>

theorem upload_once_per_fingerprint_witness:
  "(\<exists>uploaded st1.
      ingestFolder demo_ingest_env demo_twins no_hashes = Some (Inr (uploaded, st1)) \<and>
      distinct (fingerprints uploaded) \<and>
      set (fingerprints uploaded) \<subseteq> seenHashes st1 - seenHashes no_hashes \<and>
      (\<forall>d\<in>set uploaded. fingerprint_made demo_ingest_env d)) \<and>
   uploaded_records (ingestFolder demo_ingest_env demo_twins no_hashes) =
     [(Some ''parent'', None, None), (Some ''parent'', None, None),
      (Some ''jsonld'', Some ''alpha beta'', Some ''h(alpha beta)'')]"
proof -
  have "case ingestFolder demo_ingest_env demo_twins no_hashes of
          Some (Inr p) \<Rightarrow> True | _ \<Rightarrow> False"
    by code_simp
  then obtain uploaded st1 where
    eq: "ingestFolder demo_ingest_env demo_twins no_hashes = Some (Inr (uploaded, st1))"
    by (auto split: option.splits sum.splits)
  have r: "uploaded_records (ingestFolder demo_ingest_env demo_twins no_hashes) =
     [(Some ''parent'', None, None), (Some ''parent'', None, None),
      (Some ''jsonld'', Some ''alpha beta'', Some ''h(alpha beta)'')]"
    by code_simp
  from upload_once_per_fingerprint [OF eq] eq r show ?thesis by blast
qed

text \<open>
  Claim C8 as stated fails: a JSON-LD chunk and a PDF chunk with the same content are
  both uploaded, since the fingerprint of the second is not the hash of its content.
\<close>

theorem identical_chunks_both_uploaded:
  "uploaded_records (ingestFolder demo_ingest_env demo_files no_hashes) =
     [(Some ''parent'', None, None),
      (Some ''jsonld'', Some ''alpha beta'', Some ''h(alpha beta)''),
      (Some ''parent'', None, None),
      (Some ''pdf-text'', Some ''alpha beta'', Some ''h(h(%PDF-bytes):alpha beta)'')]"
  by code_simp

end
